theory Spec2Isabelle
  imports Main
begin

section \<open>Data model of \<open>domain/environment.py\<close>\<close>

text \<open>
  A cell of \<open>Environment.matrix\<close> holds \<open>None\<close> (the wall marker), the integer \<open>0\<close>
  (vacant), a \<open>HerbivoreFood\<close> object (only its nutrition is ever used) or a reference to
  an \<open>AliveEntity\<close> object. Entities are Python objects compared by identity, so a cell
  holds the reference and the entity's own state lives in the object store of the
  environment record below.
\<close>

datatype cell = Boundary | Empty | Food int | Agent nat

text \<open>
  \<open>Movement\<close> is declared in \<open>domain/objects.py\<close>; \<open>_make_move\<close> tests it against nine
  members and raises on anything else, which is \<open>OTHER\<close> here.
\<close>

datatype movement =
  STAY | UP | DOWN | LEFT | RIGHT | UP_LEFT | UP_RIGHT | DOWN_LEFT | DOWN_RIGHT | OTHER

datatype coordinates = Coordinates (x_of: int) (y_of: int)

text \<open>
  The four exception classes of the module, and the built-in exceptions that list
  indexing, attribute access on \<open>None\<close> and \<open>random.randint\<close> raise.
\<close>

datatype error =
  NotVacantPlaceException | UnsupportedMovement | ObjectNotExistsInEnvironment
  | SetupEnvironmentError | IndexError | AttributeError | ValueError

fun is_environment_exception :: "error \<Rightarrow> bool" where
  "is_environment_exception NotVacantPlaceException = True"
| "is_environment_exception UnsupportedMovement = True"
| "is_environment_exception ObjectNotExistsInEnvironment = True"
| "is_environment_exception SetupEnvironmentError = True"
| "is_environment_exception _ = False"

text \<open>
  The fields of \<open>Setup\<close> that the environment reads: \<open>setup.window.width\<close>,
  \<open>setup.window.height\<close>, \<open>setup.food.replenish_food\<close>,
  \<open>setup.food.herbivore_food_nutrition\<close>, \<open>setup.food.herbivore_food_amount\<close> and the
  truth value of \<open>setup.herbivore.birth_after\<close>.
\<close>

record Setup =
  window_width :: int
  window_height :: int
  food_replenish_food :: bool
  food_herbivore_food_nutrition :: int
  food_herbivore_food_amount :: int
  herbivore_birth_after :: bool

text \<open>
  What the environment uses of an \<open>AliveEntity\<close> (class in \<open>domain/entitites.py\<close>, a
  parameter here): the attribute \<open>health\<close> and the methods \<open>get_move\<close>, \<open>give_birth\<close>
  and \<open>eat\<close>, each of which may change the entity's own state \<open>'s\<close>.
\<close>

record 's entity_ops =
  health :: "'s \<Rightarrow> int"
  get_move :: "cell list list \<Rightarrow> 's \<Rightarrow> movement \<times> 's"
  give_birth :: "'s \<Rightarrow> 's option \<times> 's"
  eat :: "int \<Rightarrow> 's \<Rightarrow> 's"

text \<open>The calls the environment makes on entities, in order.\<close>

datatype event = AskedMove nat | AskedBirth nat | Ate nat int

text \<open>
  The \<open>Environment\<close> object with the part of the run-time state its methods touch: the
  object store of the entities (\<open>entities\<close>, with \<open>fresh\<close> the next unused reference), the
  values the random generator will return next (\<open>draws\<close>) and the trace of calls made on
  entities (\<open>calls\<close>).
\<close>

record 's environment =
  env_setup :: Setup
  width :: int
  height :: int
  replenish_food :: bool
  food_nutrition :: int
  herbivore_food_amount :: int
  matrix :: "cell list list"
  herbivores :: "nat list"
  entities :: "nat \<Rightarrow> 's"
  fresh :: nat
  draws :: "nat list"
  calls :: "event list"

section \<open>Results: exceptions and loops that may not return\<close>

text \<open>
  A method that always returns or raises has a result of type \<open>error + 'a\<close>. A method
  that runs the sampling loop of \<open>_set_object_randomly\<close> has a result of type
  \<open>(error + 'a) option\<close>: \<open>None\<close> when the loop has not returned after all the supplied
  draws.
\<close>

definition bind_error :: "error + 'a \<Rightarrow> ('a \<Rightarrow> error + 'b) \<Rightarrow> error + 'b" where
  "bind_error r f = (case r of Inl e \<Rightarrow> Inl e | Inr v \<Rightarrow> f v)"

definition bind_run ::
  "(error + 'a) option \<Rightarrow> ('a \<Rightarrow> (error + 'b) option) \<Rightarrow> (error + 'b) option" where
  "bind_run r f = (case r of None \<Rightarrow> None | Some (Inl e) \<Rightarrow> Some (Inl e) | Some (Inr v) \<Rightarrow> f v)"

section \<open>Python lists\<close>

text \<open>
  \<open>xs[i]\<close>: a negative index counts from the end, an index outside
  \<open>[-len(xs), len(xs))\<close> raises \<open>IndexError\<close>.
\<close>

definition py_norm :: "nat \<Rightarrow> int \<Rightarrow> nat option" where
  "py_norm n i =
     (if 0 \<le> i \<and> i < int n then Some (nat i)
      else if - int n \<le> i \<and> i < 0 then Some (nat (int n + i))
      else None)"

text \<open>\<open>xs[a:b]\<close>: both ends are clamped to the list, a negative end counts from the end.\<close>

definition py_clamp :: "nat \<Rightarrow> int \<Rightarrow> nat" where
  "py_clamp n i = (if i < 0 then nat (max (i + int n) 0) else min (nat i) n)"

definition py_slice :: "'a list \<Rightarrow> int \<Rightarrow> int \<Rightarrow> 'a list" where
  "py_slice xs a b =
     (let s = py_clamp (length xs) a; e = py_clamp (length xs) b in take (e - s) (drop s xs))"

text \<open>\<open>matrix[where.y][where.x]\<close> and \<open>matrix[where.y][where.x] = v\<close>.\<close>

definition matrix_get :: "cell list list \<Rightarrow> coordinates \<Rightarrow> error + cell" where
  "matrix_get m c =
     (case py_norm (length m) (y_of c) of
        None \<Rightarrow> Inl IndexError
      | Some r \<Rightarrow>
          (case py_norm (length (m ! r)) (x_of c) of
             None \<Rightarrow> Inl IndexError
           | Some k \<Rightarrow> Inr (m ! r ! k)))"

definition matrix_set :: "cell list list \<Rightarrow> coordinates \<Rightarrow> cell \<Rightarrow> error + cell list list" where
  "matrix_set m c v =
     (case py_norm (length m) (y_of c) of
        None \<Rightarrow> Inl IndexError
      | Some r \<Rightarrow>
          (case py_norm (length (m ! r)) (x_of c) of
             None \<Rightarrow> Inl IndexError
           | Some k \<Rightarrow> Inr (m[r := (m ! r)[k := v]])))"

section \<open>The environment\<close>

text \<open>\<open>range(n)\<close> is \<open>[0..n - 1]\<close>, empty when \<open>n \<le> 0\<close>.\<close>

definition create_blank_matrix :: "int \<Rightarrow> int \<Rightarrow> cell list list" where
  "create_blank_matrix w h =
     map (\<lambda>i. map (\<lambda>j. if i \<notin> {0, w - 1} \<and> j \<notin> {0, h - 1} then Empty else Boundary) [0..h - 1])
       [0..w - 1]"

text \<open>
  \<open>Environment.__init__\<close>. It tests nothing and raises nothing; the result is a sum only
  so that this can be said.
\<close>

definition init :: "Setup \<Rightarrow> (nat \<Rightarrow> 's) \<Rightarrow> nat \<Rightarrow> nat list \<Rightarrow> error + 's environment" where
  "init s store next rs =
     Inr \<lparr> env_setup = s,
           width = window_width s,
           height = window_height s,
           replenish_food = food_replenish_food s,
           food_nutrition = food_herbivore_food_nutrition s,
           herbivore_food_amount = food_herbivore_food_amount s,
           matrix = create_blank_matrix (window_width s) (window_height s),
           herbivores = [],
           entities = store, fresh = next, draws = rs, calls = [] \<rparr>"

definition has_space_left :: "'s environment \<Rightarrow> bool" where
  "has_space_left env = list_ex (\<lambda>row. list_ex (\<lambda>place. place = Empty) row) (matrix env)"

fun is_agent :: "cell \<Rightarrow> bool" where
  "is_agent (Agent a) = True"
| "is_agent _ = False"

fun is_food :: "cell \<Rightarrow> bool" where
  "is_food (Food n) = True"
| "is_food _ = False"

definition game_over :: "'s environment \<Rightarrow> bool" where
  "game_over env = (\<not> list_ex (\<lambda>row. list_ex is_agent row) (matrix env))"

definition setup_herbivores :: "nat list \<Rightarrow> 's environment \<Rightarrow> 's environment" where
  "setup_herbivores hs env = env\<lparr>herbivores := hs\<rparr>"

definition respawn_object :: "coordinates \<Rightarrow> cell \<Rightarrow> 's environment \<Rightarrow> error + 's environment" where
  "respawn_object c obj env =
     bind_error (matrix_get (matrix env) c) (\<lambda>place.
       if place = Empty
       then bind_error (matrix_set (matrix env) c obj) (\<lambda>m. Inr (env\<lparr>matrix := m\<rparr>))
       else Inl NotVacantPlaceException)"

definition erase_object :: "coordinates \<Rightarrow> 's environment \<Rightarrow> error + 's environment" where
  "erase_object c env = bind_error (matrix_set (matrix env) c Empty) (\<lambda>m. Inr (env\<lparr>matrix := m\<rparr>))"

definition is_empty_coordinates :: "coordinates \<Rightarrow> 's environment \<Rightarrow> error + bool" where
  "is_empty_coordinates c env = bind_error (matrix_get (matrix env) c) (\<lambda>place. Inr (place = Empty))"

text \<open>\<open>_get_object_coordinates\<close>: the first cell, rows first, that equals the object.\<close>

primrec index_of :: "'a \<Rightarrow> 'a list \<Rightarrow> nat option" where
  "index_of v [] = None"
| "index_of v (element # row) = (if element = v then Some 0 else map_option Suc (index_of v row))"

primrec locate :: "cell \<Rightarrow> cell list list \<Rightarrow> (nat \<times> nat) option" where
  "locate v [] = None"
| "locate v (row # rows) =
     (case index_of v row of
        Some x \<Rightarrow> Some (x, 0)
      | None \<Rightarrow> map_option (\<lambda>(x, y). (x, Suc y)) (locate v rows))"

definition get_object_coordinates :: "'s environment \<Rightarrow> nat \<Rightarrow> coordinates option" where
  "get_object_coordinates env obj =
     map_option (\<lambda>(x, y). Coordinates (int x) (int y)) (locate (Agent obj) (matrix env))"

text \<open>
  \<open>_get_observation\<close> takes what \<open>_get_object_coordinates\<close> returned, which may be
  \<open>None\<close>; reading \<open>.y\<close> of \<open>None\<close> raises \<open>AttributeError\<close>.
\<close>

fun get_observation :: "'s environment \<Rightarrow> coordinates option \<Rightarrow> error + cell list list" where
  "get_observation env None = Inl AttributeError"
| "get_observation env (Some p) =
     Inr (map (\<lambda>row. py_slice row (x_of p - 1) (x_of p + 2))
            (py_slice (matrix env) (y_of p - 1) (y_of p + 2)))"

definition get_living_object_observation :: "'s environment \<Rightarrow> nat \<Rightarrow> error + cell list list" where
  "get_living_object_observation env living_obj =
     get_observation env (get_object_coordinates env living_obj)"

text \<open>
  \<open>random.randint(a, b)\<close> returns some integer of \<open>[a, b]\<close> and raises \<open>ValueError\<close> when
  the range is empty; the draw \<open>r\<close> chooses which.
\<close>

definition randint :: "int \<Rightarrow> int \<Rightarrow> nat \<Rightarrow> error + int" where
  "randint a b r = (if b < a then Inl ValueError else Inr (a + int r mod (b - a + 1)))"

definition get_random_coordinates :: "'s environment \<Rightarrow> nat \<Rightarrow> nat \<Rightarrow> error + coordinates" where
  "get_random_coordinates env r1 r2 =
     bind_error (randint 1 (width env) r1) (\<lambda>x.
     bind_error (randint 1 (height env) r2) (\<lambda>y.
       Inr (Coordinates (x - 1) (y - 1))))"

text \<open>The \<open>while in_process\<close> loop of \<open>_set_object_randomly\<close>, two draws a turn.\<close>

fun sampling :: "cell \<Rightarrow> 's environment \<Rightarrow> nat list \<Rightarrow> (error + 's environment) option" where
  "sampling obj env (r1 # r2 # rs) =
     (case get_random_coordinates env r1 r2 of
        Inl e \<Rightarrow> Some (Inl e)
      | Inr random_coordinates \<Rightarrow>
          (case is_empty_coordinates random_coordinates env of
             Inl e \<Rightarrow> Some (Inl e)
           | Inr True \<Rightarrow>
               (case respawn_object random_coordinates obj env of
                  Inl e \<Rightarrow> Some (Inl e)
                | Inr env' \<Rightarrow> Some (Inr (env'\<lparr>draws := rs\<rparr>)))
           | Inr False \<Rightarrow> sampling obj env rs))"
| "sampling obj env rs = None"

definition set_object_randomly :: "cell \<Rightarrow> 's environment \<Rightarrow> (error + 's environment) option" where
  "set_object_randomly obj env =
     (if \<not> has_space_left env then Some (Inl SetupEnvironmentError)
      else sampling obj env (draws env))"

definition coordinates_around :: "coordinates \<Rightarrow> coordinates list" where
  "coordinates_around near =
     concat (map (\<lambda>y. map (\<lambda>x. Coordinates (x_of near + x) (y_of near + y)) [-1, 0, 1]) [-1, 0, 1])"

primrec first_empty ::
  "coordinates list \<Rightarrow> cell \<Rightarrow> 's environment \<Rightarrow> (error + 's environment) option" where
  "first_empty [] obj env = set_object_randomly obj env"
| "first_empty (coordinate # rest) obj env =
     (case is_empty_coordinates coordinate env of
        Inl e \<Rightarrow> Some (Inl e)
      | Inr True \<Rightarrow> Some (respawn_object coordinate obj env)
      | Inr False \<Rightarrow> first_empty rest obj env)"

definition set_obj_near :: "coordinates \<Rightarrow> cell \<Rightarrow> 's environment \<Rightarrow> (error + 's environment) option" where
  "set_obj_near near obj env = first_empty (coordinates_around near) obj env"

text \<open>\<open>_make_move\<close>: the offset of each of the eight directions.\<close>

fun offset :: "movement \<Rightarrow> (int \<times> int) option" where
  "offset UP = Some (0, -1)"
| "offset DOWN = Some (0, 1)"
| "offset LEFT = Some (-1, 0)"
| "offset RIGHT = Some (1, 0)"
| "offset UP_LEFT = Some (-1, -1)"
| "offset UP_RIGHT = Some (1, -1)"
| "offset DOWN_LEFT = Some (-1, 1)"
| "offset DOWN_RIGHT = Some (1, 1)"
| "offset _ = None"

text \<open>
  The two assignments \<open>matrix[desired] = obj\<close> and \<open>matrix[from_] = 0\<close> that the branch for
  a vacant target and the branch for food share.
\<close>

definition occupy ::
  "coordinates \<Rightarrow> coordinates \<Rightarrow> nat \<Rightarrow> 's environment \<Rightarrow> error + 's environment" where
  "occupy desired from obj env =
     bind_error (matrix_set (matrix env) desired (Agent obj)) (\<lambda>m1.
     bind_error (matrix_set m1 from Empty) (\<lambda>m2.
       Inr (env\<lparr>matrix := m2\<rparr>)))"

definition make_move ::
  "'s entity_ops \<Rightarrow> movement \<Rightarrow> nat \<Rightarrow> 's environment \<Rightarrow> (error + 's environment) option" where
  "make_move ops mv obj env =
     (case get_object_coordinates env obj of
        None \<Rightarrow> Some (Inl ObjectNotExistsInEnvironment)
      | Some from \<Rightarrow>
          if mv = STAY then Some (Inr env)
          else
            (case offset mv of
               None \<Rightarrow> Some (Inl UnsupportedMovement)
             | Some (dx, dy) \<Rightarrow>
                 let desired = Coordinates (x_of from + dx) (y_of from + dy) in
                 (case matrix_get (matrix env) desired of
                    Inl e \<Rightarrow> Some (Inl e)
                  | Inr Empty \<Rightarrow> Some (occupy desired from obj env)
                  | Inr (Food n) \<Rightarrow>
                      bind_run
                        (Some (occupy desired from obj
                           (env\<lparr>entities := (entities env)(obj := eat ops n (entities env obj)),
                                 calls := calls env @ [Ate obj n]\<rparr>)))
                        (\<lambda>env'. if replenish_food env'
                                then set_object_randomly (Food (food_nutrition env')) env'
                                else Some (Inr env'))
                  | Inr _ \<Rightarrow> Some (Inr env))))"

text \<open>
  \<open>_get_next_state\<close>. The body of the inner loop for the cell at column \<open>x\<close> of row \<open>y\<close>,
  in three parts: \<open>birth\<close> is the block under \<open>birth_after\<close>, \<open>ask_and_move\<close> the
  observation, the call of \<open>get_move\<close> and the move, and \<open>visit\<close> the tests that come
  first. \<open>enumerate\<close> reads the cell from the live row when it reaches it, so \<open>visit\<close>
  reads the matrix as the earlier visits left it. \<open>scan_row\<close> and \<open>scan_rows\<close> are the
  two \<open>for\<close> loops; the list \<open>moved_entity_cash\<close> goes with the environment. A child
  returned by \<open>give_birth\<close> is a new object: it gets the next unused reference.
\<close>

definition birth ::
  "'s entity_ops \<Rightarrow> nat \<Rightarrow> nat \<Rightarrow> nat \<Rightarrow> 's environment \<times> nat list
     \<Rightarrow> (error + 's environment \<times> nat list) option" where
  "birth ops x y entity s =
     (case s of (env, moved_entity_cash) \<Rightarrow>
        if herbivore_birth_after (env_setup env) then
          (case give_birth ops (entities env entity) of (born, parent) \<Rightarrow>
             let env1 = env\<lparr>entities := (entities env)(entity := parent),
                             calls := calls env @ [AskedBirth entity]\<rparr> in
             (case born of
                None \<Rightarrow> Some (Inr (env1, moved_entity_cash))
              | Some state \<Rightarrow>
                  let child = fresh env1;
                      env2 = env1\<lparr>entities := (entities env1)(child := state), fresh := Suc child\<rparr> in
                  bind_run (set_obj_near (Coordinates (int x) (int y)) (Agent child) env2)
                    (\<lambda>env3. Some (Inr (env3, moved_entity_cash @ [child])))))
        else Some (Inr s))"

definition ask_and_move ::
  "'s entity_ops \<Rightarrow> nat \<Rightarrow> nat \<Rightarrow> nat \<Rightarrow> 's environment \<times> nat list
     \<Rightarrow> (error + 's environment \<times> nat list) option" where
  "ask_and_move ops x y entity s =
     (case s of (env, moved_entity_cash) \<Rightarrow>
        bind_run (Some (get_observation env (Some (Coordinates (int x) (int y))))) (\<lambda>observation.
          case get_move ops observation (entities env entity) of (mv, state) \<Rightarrow>
            bind_run
              (make_move ops mv entity
                 (env\<lparr>entities := (entities env)(entity := state),
                       calls := calls env @ [AskedMove entity]\<rparr>))
              (\<lambda>env'. Some (Inr (env', moved_entity_cash @ [entity])))))"

definition visit ::
  "'s entity_ops \<Rightarrow> nat \<Rightarrow> nat \<Rightarrow> 's environment \<times> nat list
     \<Rightarrow> (error + 's environment \<times> nat list) option" where
  "visit ops x y s =
     (case s of (env, moved_entity_cash) \<Rightarrow>
        (case matrix env ! y ! x of
           Agent entity \<Rightarrow>
             if health ops (entities env entity) = 0
             then bind_run (Some (erase_object (Coordinates (int x) (int y)) env))
                    (\<lambda>env'. Some (Inr (env', moved_entity_cash)))
             else if entity \<in> set moved_entity_cash then Some (Inr s)
             else bind_run (birth ops x y entity s) (ask_and_move ops x y entity)
         | _ \<Rightarrow> Some (Inr s)))"

primrec scan_row ::
  "'s entity_ops \<Rightarrow> nat \<Rightarrow> nat list \<Rightarrow> 's environment \<times> nat list
     \<Rightarrow> (error + 's environment \<times> nat list) option" where
  "scan_row ops y [] s = Some (Inr s)"
| "scan_row ops y (x # xs) s = bind_run (visit ops x y s) (scan_row ops y xs)"

primrec scan_rows ::
  "'s entity_ops \<Rightarrow> nat list \<Rightarrow> 's environment \<times> nat list
     \<Rightarrow> (error + 's environment \<times> nat list) option" where
  "scan_rows ops [] s = Some (Inr s)"
| "scan_rows ops (y # ys) s =
     bind_run (scan_row ops y [0..<length (matrix (fst s) ! y)] s) (scan_rows ops ys)"

definition get_next_state :: "'s entity_ops \<Rightarrow> 's environment \<Rightarrow> (error + 's environment) option" where
  "get_next_state ops env =
     bind_run (scan_rows ops [0..<length (matrix env)] (env, [])) (\<lambda>s. Some (Inr (fst s)))"

definition step_living_regime ::
  "'s entity_ops \<Rightarrow> 's environment \<Rightarrow> (error + (cell list list \<times> bool) \<times> 's environment) option" where
  "step_living_regime ops env =
     bind_run (get_next_state ops env) (\<lambda>env'. Some (Inr ((matrix env', game_over env'), env')))"

text \<open>\<open>setup_initial_state\<close>: one \<open>_set_object_randomly\<close> for each object, in order.\<close>

primrec place_each :: "cell list \<Rightarrow> 's environment \<Rightarrow> (error + 's environment) option" where
  "place_each [] env = Some (Inr env)"
| "place_each (obj # objs) env = bind_run (set_object_randomly obj env) (place_each objs)"

definition setup_initial_state :: "'s environment \<Rightarrow> (error + 's environment) option" where
  "setup_initial_state env =
     (let env0 = env\<lparr>matrix := create_blank_matrix (width env) (height env)\<rparr> in
      if length (herbivores env0) < 1 then Some (Inl SetupEnvironmentError)
      else bind_run (place_each (map Agent (herbivores env0)) env0) (\<lambda>env1.
             place_each
               (replicate (nat (herbivore_food_amount env1)) (Food (food_nutrition env1))) env1))"

section \<open>Cells by position\<close>

text \<open>
  Notions used to state and prove the properties below: the row and column that a
  coordinate addresses after Python's index normalisation, the matrix with one cell
  replaced, the number of cells that satisfy a predicate, and the relation between an
  environment and the one obtained by putting an object on a vacant cell.
\<close>

definition position :: "cell list list \<Rightarrow> coordinates \<Rightarrow> (nat \<times> nat) option" where
  "position m c =
     (case py_norm (length m) (y_of c) of
        None \<Rightarrow> None
      | Some r \<Rightarrow> map_option (\<lambda>k. (k, r)) (py_norm (length (m ! r)) (x_of c)))"

definition put_cell :: "nat \<Rightarrow> nat \<Rightarrow> cell \<Rightarrow> cell list list \<Rightarrow> cell list list" where
  "put_cell k r v m = m[r := (m ! r)[k := v]]"

definition count_cells :: "(cell \<Rightarrow> bool) \<Rightarrow> cell list list \<Rightarrow> nat" where
  "count_cells P m = sum_list (map (\<lambda>row. length (filter P row)) m)"

definition placed :: "cell \<Rightarrow> 's environment \<Rightarrow> 's environment \<Rightarrow> bool" where
  "placed obj env env' \<longleftrightarrow>
     (\<exists>k r rs. r < length (matrix env) \<and> k < length (matrix env ! r) \<and>
        matrix env ! r ! k = Empty \<and>
        env' = env\<lparr>matrix := put_cell k r obj (matrix env), draws := rs\<rparr>)"

section \<open>Calls on entities and what one visit may change\<close>

text \<open>
  The entity an event is about, the entities asked for a movement in a trace, the calls
  made between two environments, and the frame of the work done for one entity \<open>b\<close>:
  the matrix keeps its shape, no reference is freed, every other entity that existed
  (reference below \<open>n\<close>) keeps its state and gains no cell, and the calls added are
  calls on \<open>b\<close>, asking for a movement exactly the entities of \<open>as\<close>.
\<close>

fun subject :: "event \<Rightarrow> nat" where
  "subject (AskedMove a) = a"
| "subject (AskedBirth a) = a"
| "subject (Ate a n) = a"

fun asked :: "event list \<Rightarrow> nat list" where
  "asked [] = []"
| "asked (AskedMove a # es) = a # asked es"
| "asked (e # es) = asked es"

definition tick_events :: "'s environment \<Rightarrow> 's environment \<Rightarrow> event list" where
  "tick_events env env' = drop (length (calls env)) (calls env')"

definition frame :: "nat \<Rightarrow> nat \<Rightarrow> nat list \<Rightarrow> 's environment \<Rightarrow> 's environment \<Rightarrow> bool" where
  "frame b n as env env' \<longleftrightarrow>
     map length (matrix env') = map length (matrix env) \<and>
     fresh env \<le> fresh env' \<and>
     (\<forall>c. c \<noteq> b \<and> c < n \<longrightarrow> entities env' c = entities env c) \<and>
     (\<forall>c y x. c \<noteq> b \<and> c < n \<and> y < length (matrix env) \<and> x < length (matrix env ! y) \<and>
        matrix env' ! y ! x = Agent c \<longrightarrow> matrix env ! y ! x = Agent c) \<and>
     (\<exists>evs. calls env' = calls env @ evs \<and> (\<forall>e \<in> set evs. subject e = b) \<and> asked evs = as)"

text \<open>
  The order in which \<open>_get_next_state\<close> reaches the cells, rows first, and the visits
  of a list of cells one after the other, each on the state that the one before left.
\<close>

definition scan_order :: "cell list list \<Rightarrow> (nat \<times> nat) list" where
  "scan_order m = concat (map (\<lambda>y. map (\<lambda>x. (x, y)) [0..<length (m ! y)]) [0..<length m])"

primrec visits ::
  "'s entity_ops \<Rightarrow> (nat \<times> nat) list \<Rightarrow> 's environment \<times> nat list
     \<Rightarrow> (error + 's environment \<times> nat list) option" where
  "visits ops [] s = Some (Inr s)"
| "visits ops (p # ps) s = bind_run (visit ops (fst p) (snd p) s) (visits ops ps)"

section \<open>The observation on list objects\<close>

text \<open>
  Whether the caller of \<open>_get_observation\<close> can change the matrix through the window
  depends on which list objects the window shares with the matrix. Here the lists are
  objects of a heap: \<open>outer\<close> gives the items of a list of rows (references to row
  objects), \<open>inner\<close> the items of a row, and \<open>next_ref\<close> is the next unused reference.
  A slice and a list comprehension each create a new list object.
\<close>

record heap =
  outer :: "nat \<Rightarrow> nat list"
  inner :: "nat \<Rightarrow> cell list"
  next_ref :: nat

text \<open>The matrix as a value: the rows behind a reference.\<close>

definition read_matrix :: "heap \<Rightarrow> nat \<Rightarrow> cell list list" where
  "read_matrix h a = map (inner h) (outer h a)"

text \<open>The comprehension of \<open>_get_observation\<close>: one new row object for each row of the slice.\<close>

primrec copy_rows :: "int \<Rightarrow> nat list \<Rightarrow> heap \<Rightarrow> heap \<times> nat list" where
  "copy_rows x [] h = (h, [])"
| "copy_rows x (row # rows) h =
     (let a = next_ref h;
          h1 = h\<lparr>inner := (inner h)(a := py_slice (inner h row) (x - 1) (x + 2)), next_ref := Suc a\<rparr>
      in case copy_rows x rows h1 of (h2, as) \<Rightarrow> (h2, a # as))"

text \<open>\<open>_get_observation\<close> on the heap: the new rows, then the new list that holds them.\<close>

definition get_observation_heap :: "heap \<Rightarrow> nat \<Rightarrow> coordinates \<Rightarrow> heap \<times> nat" where
  "get_observation_heap h matrix_ref p =
     (case copy_rows (x_of p) (py_slice (outer h matrix_ref) (y_of p - 1) (y_of p + 2)) h of
        (h1, as) \<Rightarrow> (h1\<lparr>outer := (outer h1)(next_ref h1 := as), next_ref := Suc (next_ref h1)\<rparr>, next_ref h1))"

section \<open>Example configurations\<close>

text \<open>
  An entity whose state is its health: every decision costs one unit of health and
  returns the same movement, eating adds the nutrition, and it never gives birth.
\<close>

definition fixed_policy :: "movement \<Rightarrow> int entity_ops" where
  "fixed_policy mv =
     \<lparr> health = (\<lambda>s. s), get_move = (\<lambda>observation s. (mv, s - 1)),
       give_birth = (\<lambda>s. (None, s)), eat = (\<lambda>n s. s + n) \<rparr>"

definition example_setup :: "int \<Rightarrow> int \<Rightarrow> bool \<Rightarrow> Setup" where
  "example_setup w h replenish =
     \<lparr> window_width = w, window_height = h, food_replenish_food = replenish,
       food_herbivore_food_nutrition = 10, food_herbivore_food_amount = 2,
       herbivore_birth_after = False \<rparr>"

text \<open>A 5 by 5 environment holding the given matrix, entity store and draws.\<close>

definition example_env ::
  "bool \<Rightarrow> cell list list \<Rightarrow> (nat \<Rightarrow> int) \<Rightarrow> nat list \<Rightarrow> int environment" where
  "example_env replenish m store rs =
     \<lparr> env_setup = example_setup 5 5 replenish, width = 5, height = 5,
       replenish_food = replenish, food_nutrition = 10, herbivore_food_amount = 2,
       matrix = m, herbivores = [0], entities = store, fresh = 2, draws = rs, calls = [] \<rparr>"

definition wall :: "cell list" where
  "wall = [Boundary, Boundary, Boundary, Boundary, Boundary]"

definition vacant :: "cell list" where
  "vacant = [Boundary, Empty, Empty, Empty, Boundary]"

text \<open>The 5 by 5 blank grid as list objects: the matrix at reference 0, its rows at 1 to 5.\<close>

definition example_heap :: heap where
  "example_heap =
     \<lparr> outer = (\<lambda>_. [])(0 := [1, 2, 3, 4, 5]),
       inner = (\<lambda>_. [])(1 := wall, 2 := vacant, 3 := vacant, 4 := vacant, 5 := wall),
       next_ref = 6 \<rparr>"

section \<open>Results and lists: basic facts\<close>

lemma bind_error_simps [simp]:
  "bind_error (Inl e) f = Inl e" "bind_error (Inr v) f = f v"
  by (simp_all add: bind_error_def)

lemma bind_run_simps [simp]:
  "bind_run None g = None" "bind_run (Some (Inl e)) g = Some (Inl e)"
  "bind_run (Some (Inr v)) g = g v"
  by (simp_all add: bind_run_def)

lemma bind_error_Inr: "bind_error r f = Inr z \<longleftrightarrow> (\<exists>v. r = Inr v \<and> f v = Inr z)"
  by (cases r) simp_all

lemma bind_run_Inr:
  "bind_run r g = Some (Inr z) \<longleftrightarrow> (\<exists>v. r = Some (Inr v) \<and> g v = Some (Inr z))"
proof (cases r)
  case None
  then show ?thesis by simp
next
  case (Some u)
  then show ?thesis by (cases u) simp_all
qed

lemma index_of_None: "index_of v row = None \<longleftrightarrow> v \<notin> set row"
  by (induction row) auto

lemma index_of_Some: "index_of v row = Some k \<Longrightarrow> k < length row \<and> row ! k = v"
  by (induction row arbitrary: k) (auto split: if_splits)

lemma locate_None: "locate v m = None \<longleftrightarrow> (\<forall>row \<in> set m. v \<notin> set row)"
proof (induction m)
  case Nil
  then show ?case by simp
next
  case (Cons row m)
  show ?case
  proof (cases "index_of v row")
    case None
    then have "v \<notin> set row" using index_of_None [of v row] by simp
    with None Cons show ?thesis by simp
  next
    case (Some k)
    then have "v \<in> set row" using index_of_None [of v row] by simp
    with Some show ?thesis by simp
  qed
qed

section \<open>The blank matrix\<close>

lemma create_blank_matrix_length: "length (create_blank_matrix w h) = nat w"
  by (simp add: create_blank_matrix_def)

lemma create_blank_matrix_row: "i < nat w \<Longrightarrow> length (create_blank_matrix w h ! i) = nat h"
  by (simp add: create_blank_matrix_def)

lemma create_blank_matrix_cell:
  "i < nat w \<Longrightarrow> j < nat h \<Longrightarrow>
   create_blank_matrix w h ! i ! j =
     (if int i \<notin> {0, w - 1} \<and> int j \<notin> {0, h - 1} then Empty else Boundary)"
  by (simp add: create_blank_matrix_def)

text \<open>
  Claim C1. The claim is that for every width and height of at least 3 the cells of
  row 0, row \<open>height - 1\<close>, column 0 and column \<open>width - 1\<close>, addressed as
  \<open>matrix[y][x]\<close>, hold the wall marker. \<open>_create_blank_matrix\<close> builds \<open>width\<close> rows of
  \<open>height\<close> cells, so for width 3 and height 4 the cell \<open>matrix[1][2]\<close> of column
  \<open>width - 1\<close> is vacant and row \<open>height - 1\<close> does not exist: reading \<open>matrix[3][1]\<close>
  raises \<open>IndexError\<close>.
\<close>

theorem blank_matrix_transposed:
  "map_sum id
     (\<lambda>env. (length (matrix env), matrix_get (matrix env) (Coordinates 2 1),
             matrix_get (matrix env) (Coordinates 1 3)))
     (init (example_setup 3 4 False) (\<lambda>_. ()) 0 [])
   = Inr (3, Inr Empty, Inl IndexError)"
  by (simp add: init_def example_setup_def create_blank_matrix_def matrix_get_def py_norm_def)

text \<open>
  Claim C8, as stated: creating the environment with width or height below 3 fails.
  \<open>__init__\<close> checks no dimension: with width 2 and height 2 it returns an environment
  whose matrix is all wall.
\<close>

theorem init_small_counterexample:
  "map_sum id matrix (init (example_setup 2 2 False) (\<lambda>_. ()) 0 [])
   = Inr [[Boundary, Boundary], [Boundary, Boundary]]"
  by code_simp

text \<open>
  Claim C8, amended: creating the environment never fails, whatever the width and
  height; it produces a matrix of \<open>width\<close> rows of \<open>height\<close> cells in which the first and
  last row and the first and last cell of every row hold the wall marker and every
  other cell is vacant.
\<close>

theorem init_grid:
  "\<not> isl (init s store next rs) \<and>
   length (matrix (projr (init s store next rs))) = nat (window_width s) \<and>
   (\<forall>i j. i < nat (window_width s) \<longrightarrow> j < nat (window_height s) \<longrightarrow>
      length (matrix (projr (init s store next rs)) ! i) = nat (window_height s) \<and>
      matrix (projr (init s store next rs)) ! i ! j =
        (if i = 0 \<or> int i = window_width s - 1 \<or> j = 0 \<or> int j = window_height s - 1
         then Boundary else Empty))"
  by (simp add: init_def create_blank_matrix_length create_blank_matrix_row
      create_blank_matrix_cell)

theorem init_grid_witness:
  "matrix (projr (init (example_setup 3 4 False) (\<lambda>_. ()) 0 [])) ! 1 ! 2 = Empty \<and>
   matrix (projr (init (example_setup 3 4 False) (\<lambda>_. ()) 0 [])) ! 1 ! 3 = Boundary \<and>
   matrix (projr (init (example_setup 3 4 False) (\<lambda>_. ()) 0 [])) ! 2 ! 2 = Boundary"
proof -
  have w: "window_width (example_setup 3 4 False) = 3"
    and h: "window_height (example_setup 3 4 False) = 4"
    by (simp_all add: example_setup_def)
  show ?thesis
    using init_grid [of "example_setup 3 4 False" "\<lambda>_. ()" 0 "[]"]
    unfolding w h by simp
qed

section \<open>The move resolver\<close>

text \<open>
  Claim C10. For an agent that is in no cell of the matrix,
  \<open>get_living_object_observation\<close> does not raise \<open>ObjectNotExistsInEnvironment\<close>, as
  \<open>_make_move\<close> does: the lookup returns \<open>None\<close> and building the observation from it
  raises \<open>AttributeError\<close>, which is none of the module's exception classes.
\<close>

theorem missing_entity_observation:
  assumes "\<forall>row \<in> set (matrix env). Agent obj \<notin> set row"
  shows "get_object_coordinates env obj = None \<and>
         get_living_object_observation env obj = Inl AttributeError \<and>
         \<not> is_environment_exception AttributeError \<and>
         make_move ops mv obj env = Some (Inl ObjectNotExistsInEnvironment)"
proof -
  from assms have "get_object_coordinates env obj = None"
    by (simp add: get_object_coordinates_def locate_None)
  then show ?thesis
    by (simp add: get_living_object_observation_def make_move_def)
qed

theorem missing_entity_observation_witness:
  "get_living_object_observation (example_env False [wall, vacant, vacant, vacant, wall] (\<lambda>_. 5) []) 0
     = Inl AttributeError \<and>
   make_move (fixed_policy RIGHT) RIGHT 0
       (example_env False [wall, vacant, vacant, vacant, wall] (\<lambda>_. 5) [])
     = Some (Inl ObjectNotExistsInEnvironment)"
proof -
  have h: "\<forall>row \<in> set (matrix (example_env False [wall, vacant, vacant, vacant, wall] (\<lambda>_. 5) [])).
             Agent 0 \<notin> set row"
    by (simp add: example_env_def wall_def vacant_def)
  show ?thesis
    using missing_entity_observation [OF h, of "fixed_policy RIGHT" RIGHT] by simp
qed

text \<open>
  Claim C4. For an agent found on the grid and a directional movement whose target cell
  holds the wall marker or an agent, \<open>_make_move\<close> raises nothing and changes nothing: it
  returns the environment it was given, as it does for \<open>STAY\<close>.
\<close>

theorem blocked_move_absorbed:
  assumes "get_object_coordinates env obj = Some from"
    and "offset mv = Some (dx, dy)"
    and "matrix_get (matrix env) (Coordinates (x_of from + dx) (y_of from + dy)) = Inr target"
    and "target = Boundary \<or> is_agent target"
  shows "make_move ops mv obj env = Some (Inr env) \<and>
         make_move ops mv obj env = make_move ops STAY obj env"
proof -
  from assms(2) have "mv \<noteq> STAY" by auto
  with assms show ?thesis
    by (cases target) (auto simp: make_move_def)
qed

theorem blocked_move_absorbed_witness:
  "make_move (fixed_policy RIGHT) RIGHT 0
     (example_env False
        [wall, [Boundary, Empty, Agent 1, Agent 0, Boundary], vacant, vacant, wall] (\<lambda>_. 5) [])
   = Some (Inr (example_env False
        [wall, [Boundary, Empty, Agent 1, Agent 0, Boundary], vacant, vacant, wall] (\<lambda>_. 5) [])) \<and>
   make_move (fixed_policy LEFT) LEFT 0
     (example_env False
        [wall, [Boundary, Empty, Agent 1, Agent 0, Boundary], vacant, vacant, wall] (\<lambda>_. 5) [])
   = Some (Inr (example_env False
        [wall, [Boundary, Empty, Agent 1, Agent 0, Boundary], vacant, vacant, wall] (\<lambda>_. 5) []))"
proof -
  let ?env = "example_env False
        [wall, [Boundary, Empty, Agent 1, Agent 0, Boundary], vacant, vacant, wall] (\<lambda>_. 5) []"
  have at: "get_object_coordinates ?env 0 = Some (Coordinates 3 1)"
    by (simp add: get_object_coordinates_def example_env_def wall_def vacant_def)
  have right: "matrix_get (matrix ?env) (Coordinates (x_of (Coordinates 3 1) + 1)
                 (y_of (Coordinates 3 1) + 0)) = Inr Boundary"
    by (simp add: matrix_get_def py_norm_def example_env_def wall_def vacant_def)
  have left: "matrix_get (matrix ?env) (Coordinates (x_of (Coordinates 3 1) + (-1))
                 (y_of (Coordinates 3 1) + 0)) = Inr (Agent 1)"
    by (simp add: matrix_get_def py_norm_def example_env_def wall_def vacant_def)
  have r: "offset RIGHT = Some (1, 0)" and l: "offset LEFT = Some (-1, 0)"
    by simp_all
  show ?thesis
    using blocked_move_absorbed [OF at r right, of "fixed_policy RIGHT"]
      blocked_move_absorbed [OF at l left, of "fixed_policy LEFT"]
    by simp
qed

section \<open>Reading and writing cells\<close>

lemma py_norm_less: "py_norm n i = Some k \<Longrightarrow> k < n"
  by (auto simp: py_norm_def split: if_splits)

lemma py_norm_nat [simp]: "k < n \<Longrightarrow> py_norm n (int k) = Some k"
  by (simp add: py_norm_def)

lemma position_bounds: "position m c = Some (k, r) \<Longrightarrow> r < length m \<and> k < length (m ! r)"
  by (auto simp: position_def dest: py_norm_less split: option.splits)

lemma position_nat [simp]:
  "y < length m \<Longrightarrow> x < length (m ! y) \<Longrightarrow> position m (Coordinates (int x) (int y)) = Some (x, y)"
  by (simp add: position_def)

lemma matrix_get_position:
  "matrix_get m c = (case position m c of None \<Rightarrow> Inl IndexError | Some (k, r) \<Rightarrow> Inr (m ! r ! k))"
  by (simp add: matrix_get_def position_def split: option.splits)

lemma matrix_set_position:
  "matrix_set m c v = (case position m c of None \<Rightarrow> Inl IndexError | Some (k, r) \<Rightarrow> Inr (put_cell k r v m))"
  by (simp add: matrix_set_def position_def put_cell_def split: option.splits)

lemma matrix_get_Inr: "matrix_get m c = Inr v \<longleftrightarrow> (\<exists>k r. position m c = Some (k, r) \<and> m ! r ! k = v)"
  by (auto simp: matrix_get_position split: option.splits)

lemma matrix_set_Inr:
  "matrix_set m c v = Inr m' \<longleftrightarrow> (\<exists>k r. position m c = Some (k, r) \<and> m' = put_cell k r v m)"
  by (auto simp: matrix_set_position split: option.splits)

lemma shape_put_cell [simp]: "map length (put_cell k r v m) = map length m"
  by (simp add: put_cell_def map_update) (metis length_list_update list_update_id map_update)

lemma length_put_cell [simp]: "length (put_cell k r v m) = length m"
  by (simp add: put_cell_def)

lemma length_put_cell_row [simp]: "length (put_cell k r v m ! y) = length (m ! y)"
  by (cases "r < length m") (auto simp: put_cell_def nth_list_update list_update_beyond)

lemma nth_put_cell:
  "r < length m \<Longrightarrow> k < length (m ! r) \<Longrightarrow>
   put_cell k r v m ! y ! x = (if y = r \<and> x = k then v else m ! y ! x)"
  by (auto simp: put_cell_def nth_list_update)

lemma position_shape:
  "map length m' = map length m \<Longrightarrow> position m' c = position m c"
proof -
  assume a: "map length m' = map length m"
  then have l: "length m' = length m" by (metis length_map)
  have "\<And>r. r < length m \<Longrightarrow> length (m' ! r) = length (m ! r)"
    using a l by (metis nth_map)
  then show ?thesis
    by (auto simp: position_def l dest: py_norm_less split: option.splits)
qed

lemma position_put_cell [simp]: "position (put_cell k r v m) c = position m c"
  by (rule position_shape) simp

lemma sum_list_update_nat:
  fixes f :: "'a \<Rightarrow> nat"
  assumes "k < length xs"
  shows "sum_list (map f (xs[k := a])) + f (xs ! k) = sum_list (map f xs) + f a"
proof -
  have "xs = take k xs @ xs ! k # drop (Suc k) xs"
    using assms by (simp add: id_take_nth_drop)
  then have "sum_list (map f xs) = sum_list (map f (take k xs)) + f (xs ! k) + sum_list (map f (drop (Suc k) xs))"
    by (metis append_Cons append_Nil map_append list.simps(9) sum_list.Cons sum_list_append add.assoc)
  moreover have "sum_list (map f (xs[k := a])) = sum_list (map f (take k xs)) + f a + sum_list (map f (drop (Suc k) xs))"
    using assms by (simp add: upd_conv_take_nth_drop)
  ultimately show ?thesis by simp
qed

lemma length_filter_sum: "length (filter P xs) = sum_list (map (\<lambda>c. if P c then 1 else 0) xs)"
  by (induction xs) simp_all

lemma count_cells_put_cell:
  assumes "r < length m" "k < length (m ! r)"
  shows "count_cells P (put_cell k r v m) + (if P (m ! r ! k) then 1 else 0)
         = count_cells P m + (if P v then 1 else 0)"
proof -
  have row: "length (filter P ((m ! r)[k := v])) + (if P (m ! r ! k) then 1 else 0)
             = length (filter P (m ! r)) + (if P v then 1 else 0)"
    using sum_list_update_nat [OF assms(2), of "\<lambda>c. if P c then 1 else 0" v]
    by (simp add: length_filter_sum)
  show ?thesis
    using sum_list_update_nat [OF assms(1), of "\<lambda>row. length (filter P row)" "(m ! r)[k := v]"] row
    by (simp add: count_cells_def put_cell_def)
qed

lemma locate_Some:
  "locate v m = Some (x, y) \<Longrightarrow> y < length m \<and> x < length (m ! y) \<and> m ! y ! x = v"
proof (induction m arbitrary: x y)
  case Nil
  then show ?case by simp
next
  case (Cons row m)
  show ?case
  proof (cases "index_of v row")
    case (Some k)
    with Cons.prems index_of_Some [OF Some] show ?thesis by auto
  next
    case None
    with Cons.prems obtain y' where "locate v m = Some (x, y')" "y = Suc y'"
      by auto
    with Cons.IH [of x y'] show ?thesis by simp
  qed
qed

lemma get_object_coordinates_Some:
  assumes "get_object_coordinates env obj = Some from"
  shows "\<exists>x y. from = Coordinates (int x) (int y) \<and> y < length (matrix env) \<and>
           x < length (matrix env ! y) \<and> matrix env ! y ! x = Agent obj \<and>
           position (matrix env) from = Some (x, y)"
proof -
  from assms obtain x y where l: "locate (Agent obj) (matrix env) = Some (x, y)"
    and f: "from = Coordinates (int x) (int y)"
    by (auto simp: get_object_coordinates_def)
  from locate_Some [OF l] f show ?thesis by auto
qed

lemma is_empty_coordinates_Inr:
  "is_empty_coordinates c env = Inr b \<longleftrightarrow>
     (\<exists>k r. position (matrix env) c = Some (k, r) \<and> b = (matrix env ! r ! k = Empty))"
  by (auto simp: is_empty_coordinates_def bind_error_Inr matrix_get_Inr)

lemma respawn_object_Inr:
  "respawn_object c obj env = Inr env' \<longleftrightarrow>
     (\<exists>k r. position (matrix env) c = Some (k, r) \<and> matrix env ! r ! k = Empty \<and>
        env' = env\<lparr>matrix := put_cell k r obj (matrix env)\<rparr>)"
  by (auto simp: respawn_object_def bind_error_Inr matrix_get_Inr matrix_set_Inr split: if_splits)

lemma respawn_object_placed:
  assumes "respawn_object c obj env = Inr env'"
  shows "placed obj env (env'\<lparr>draws := rs\<rparr>)"
proof -
  from assms obtain k r where p: "position (matrix env) c = Some (k, r)"
    and e: "matrix env ! r ! k = Empty"
    and env': "env' = env\<lparr>matrix := put_cell k r obj (matrix env)\<rparr>"
    by (auto simp: respawn_object_Inr)
  from position_bounds [OF p] e env' show ?thesis
    unfolding placed_def by auto
qed

lemma sampling_placed: "sampling obj env rs = Some (Inr env') \<Longrightarrow> placed obj env env'"
proof (induction obj env rs rule: sampling.induct)
  case (1 obj env r1 r2 rs)
  show ?case
  proof (cases "get_random_coordinates env r1 r2")
    case (Inl e)
    with "1.prems" show ?thesis by simp
  next
    case (Inr c)
    show ?thesis
    proof (cases "is_empty_coordinates c env")
      case (Inl e)
      with Inr "1.prems" show ?thesis by simp
    next
      case b: (Inr b)
      show ?thesis
      proof (cases b)
        case True
        with Inr b "1.prems" obtain env1 where r: "respawn_object c obj env = Inr env1"
          and "env' = env1\<lparr>draws := rs\<rparr>"
          by (auto split: sum.splits)
        with respawn_object_placed [OF r] show ?thesis by simp
      next
        case False
        with Inr b "1.prems" "1.IH" show ?thesis by simp
      qed
    qed
  qed
qed simp_all

lemma set_object_randomly_placed:
  "set_object_randomly obj env = Some (Inr env') \<Longrightarrow> placed obj env env'"
  by (auto simp: set_object_randomly_def dest: sampling_placed split: if_splits)

lemma set_object_randomly_space:
  "set_object_randomly obj env = Some (Inr env') \<Longrightarrow> has_space_left env"
  by (auto simp: set_object_randomly_def split: if_splits)

lemma first_empty_placed:
  "first_empty cs obj env = Some (Inr env') \<Longrightarrow> placed obj env env'"
proof (induction cs)
  case Nil
  then show ?case by (simp add: set_object_randomly_placed)
next
  case (Cons c cs)
  show ?case
  proof (cases "is_empty_coordinates c env")
    case (Inl e)
    with Cons.prems show ?thesis by simp
  next
    case (Inr b)
    show ?thesis
    proof (cases b)
      case True
      with Inr Cons.prems have r: "respawn_object c obj env = Inr env'" by simp
      from respawn_object_placed [OF r, of "draws env'"] show ?thesis by simp
    next
      case False
      with Inr Cons show ?thesis by simp
    qed
  qed
qed

lemma set_obj_near_placed:
  "set_obj_near near obj env = Some (Inr env') \<Longrightarrow> placed obj env env'"
  by (simp add: set_obj_near_def first_empty_placed)

lemma occupy_Inr:
  "occupy desired from obj env = Inr env' \<longleftrightarrow>
     (\<exists>k r x y. position (matrix env) desired = Some (k, r) \<and>
        position (matrix env) from = Some (x, y) \<and>
        env' = env\<lparr>matrix := put_cell x y Empty (put_cell k r (Agent obj) (matrix env))\<rparr>)"
  by (auto simp: occupy_def bind_error_Inr matrix_set_Inr)

lemma has_space_left_cell:
  "r < length (matrix env) \<Longrightarrow> k < length (matrix env ! r) \<Longrightarrow> matrix env ! r ! k = Empty \<Longrightarrow>
   has_space_left env"
  using nth_mem [of r "matrix env"] nth_mem [of k "matrix env ! r"]
  by (auto simp: has_space_left_def list_ex_iff)

text \<open>A draw that selects a vacant cell ends the sampling loop at once.\<close>

lemma set_object_randomly_hit:
  assumes r: "r < length (matrix env)" and k: "k < length (matrix env ! r)"
    and e: "matrix env ! r ! k = Empty"
    and w: "int k < width env" and h: "int r < height env"
    and d: "draws env = k # r # rs"
  shows "set_object_randomly obj env
         = Some (Inr (env\<lparr>matrix := put_cell k r obj (matrix env), draws := rs\<rparr>))"
proof -
  have c: "get_random_coordinates env k r = Inr (Coordinates (int k) (int r))"
    using w h by (simp add: get_random_coordinates_def randint_def)
  have i: "is_empty_coordinates (Coordinates (int k) (int r)) env = Inr True"
    using r k e by (simp add: is_empty_coordinates_Inr)
  have p: "respawn_object (Coordinates (int k) (int r)) obj env
           = Inr (env\<lparr>matrix := put_cell k r obj (matrix env)\<rparr>)"
    using r k e by (simp add: respawn_object_Inr)
  from has_space_left_cell [OF r k e] c i p d show ?thesis
    by (simp add: set_object_randomly_def)
qed

text \<open>A draw that selects an occupied cell is followed by the next draw.\<close>

lemma get_random_coordinates_nat:
  "int k < width env \<Longrightarrow> int r < height env \<Longrightarrow>
   get_random_coordinates env k r = Inr (Coordinates (int k) (int r))"
  by (simp add: get_random_coordinates_def randint_def)

lemma sampling_hit:
  assumes "r < length (matrix env)" "k < length (matrix env ! r)" "matrix env ! r ! k = Empty"
    and "int k < width env" "int r < height env"
  shows "sampling obj env (k # r # rs)
         = Some (Inr (env\<lparr>matrix := put_cell k r obj (matrix env), draws := rs\<rparr>))"
proof -
  have i: "is_empty_coordinates (Coordinates (int k) (int r)) env = Inr True"
    using assms(1-3) by (simp add: is_empty_coordinates_Inr)
  have p: "respawn_object (Coordinates (int k) (int r)) obj env
           = Inr (env\<lparr>matrix := put_cell k r obj (matrix env)\<rparr>)"
    using assms(1-3) by (simp add: respawn_object_Inr)
  from get_random_coordinates_nat [OF assms(4,5)] i p show ?thesis by simp
qed

lemma sampling_miss:
  assumes "r < length (matrix env)" "k < length (matrix env ! r)" "matrix env ! r ! k \<noteq> Empty"
    and "int k < width env" "int r < height env"
  shows "sampling obj env (k # r # rs) = sampling obj env rs"
proof -
  have i: "is_empty_coordinates (Coordinates (int k) (int r)) env = Inr False"
    using assms(1-3) by (simp add: is_empty_coordinates_Inr)
  from get_random_coordinates_nat [OF assms(4,5)] i show ?thesis by simp
qed

lemma sampling_misses:
  assumes "\<forall>(k, r) \<in> set ms. int k < width env \<and> int r < height env \<and> r < length (matrix env) \<and>
             k < length (matrix env ! r) \<and> matrix env ! r ! k \<noteq> Empty"
  shows "sampling obj env (concat (map (\<lambda>(k, r). [k, r]) ms) @ rs) = sampling obj env rs"
  using assms
proof (induction ms)
  case Nil
  then show ?case by simp
next
  case (Cons p ms)
  obtain k r where p: "p = (k, r)" by (cases p)
  from Cons.prems p have "sampling obj env (k # r # concat (map (\<lambda>(k, r). [k, r]) ms) @ rs)
      = sampling obj env (concat (map (\<lambda>(k, r). [k, r]) ms) @ rs)"
    by (intro sampling_miss) simp_all
  with Cons p show ?case by simp
qed

section \<open>Moves into vacant cells and into food\<close>

lemma make_move_empty:
  assumes "get_object_coordinates env obj = Some from"
    and "offset mv = Some (dx, dy)"
    and "matrix_get (matrix env) (Coordinates (x_of from + dx) (y_of from + dy)) = Inr Empty"
  shows "make_move ops mv obj env
         = Some (occupy (Coordinates (x_of from + dx) (y_of from + dy)) from obj env)"
proof -
  from assms(2) have "mv \<noteq> STAY" by auto
  with assms show ?thesis by (simp add: make_move_def)
qed

lemma move_to_empty:
  assumes "get_object_coordinates env obj = Some from"
    and "offset mv = Some (dx, dy)"
    and "matrix_get (matrix env) (Coordinates (x_of from + dx) (y_of from + dy)) = Inr Empty"
  shows "\<exists>env'. make_move ops mv obj env = Some (Inr env') \<and>
           matrix_get (matrix env') (Coordinates (x_of from + dx) (y_of from + dy)) = Inr (Agent obj) \<and>
           matrix_get (matrix env') from = Inr Empty"
proof -
  let ?d = "Coordinates (x_of from + dx) (y_of from + dy)"
  from get_object_coordinates_Some [OF assms(1)] obtain x y where
    f: "position (matrix env) from = Some (x, y)" and a: "matrix env ! y ! x = Agent obj"
    by auto
  from assms(3) obtain k r where
    d: "position (matrix env) ?d = Some (k, r)" and e: "matrix env ! r ! k = Empty"
    by (auto simp: matrix_get_Inr)
  from a e have ne: "\<not> (r = y \<and> k = x)" by auto
  let ?m = "put_cell x y Empty (put_cell k r (Agent obj) (matrix env))"
  have o: "occupy ?d from obj env = Inr (env\<lparr>matrix := ?m\<rparr>)"
    using f d by (simp add: occupy_Inr)
  have b1: "r < length (matrix env)" "k < length (matrix env ! r)"
    using position_bounds [OF d] by simp_all
  have b2: "y < length (matrix env)" "x < length (matrix env ! y)"
    using position_bounds [OF f] by simp_all
  have "?m ! r ! k = Agent obj"
    using b1 b2 ne by (simp add: nth_put_cell)
  moreover have "?m ! y ! x = Empty"
    using b1 b2 by (simp add: nth_put_cell)
  ultimately show ?thesis
    using make_move_empty [OF assms, of ops] o f d
    by (simp add: matrix_get_Inr)
qed

lemma visit_other:
  "\<not> is_agent (matrix env ! y ! x) \<Longrightarrow> visit ops x y (env, cache) = Some (Inr (env, cache))"
  by (cases "matrix env ! y ! x") (simp_all add: visit_def)

lemma scan_row_no_agents:
  "\<forall>x \<in> set xs. \<not> is_agent (matrix env ! y ! x) \<Longrightarrow>
   scan_row ops y xs (env, cache) = Some (Inr (env, cache))"
  by (induction xs) (simp_all add: visit_other)

lemma visit_cached:
  "matrix env ! y ! x = Agent b \<Longrightarrow> health ops (entities env b) \<noteq> 0 \<Longrightarrow> b \<in> set cache \<Longrightarrow>
   visit ops x y (env, cache) = Some (Inr (env, cache))"
  by (simp add: visit_def)

lemma birth_none:
  assumes "herbivore_birth_after (env_setup env) \<longrightarrow> fst (give_birth ops (entities env b)) = None"
  shows "birth ops x y b (env, cache) =
         Some (Inr (if herbivore_birth_after (env_setup env)
                    then env\<lparr>entities := (entities env)(b := snd (give_birth ops (entities env b))),
                              calls := calls env @ [AskedBirth b]\<rparr>
                    else env, cache))"
  using assms by (auto simp: birth_def Let_def split: prod.splits)

lemma row_all: "(\<forall>x \<in> set [0..<length row]. P (row ! x)) \<longleftrightarrow> (\<forall>c \<in> set row. P c)"
  by (fastforce simp: in_set_conv_nth)

lemma tick_right:
  fixes env :: "'s environment"
  assumes m: "matrix env = [r0, [c0, Agent a, Empty, c3, c4], r2, r3, r4]"
    and others: "\<forall>c \<in> set r0 \<union> set r2 \<union> set r3 \<union> set r4 \<union> {c0, c3, c4}. \<not> is_agent c"
    and alive: "health ops (entities env a) \<noteq> 0"
    and nobirth: "herbivore_birth_after (env_setup env) \<longrightarrow> fst (give_birth ops (entities env a)) = None"
    and right: "\<forall>observation s. fst (get_move ops observation s) = RIGHT"
    and survives: "\<forall>observation.
        health ops (snd (get_move ops observation
          (if herbivore_birth_after (env_setup env)
           then snd (give_birth ops (entities env a)) else entities env a))) \<noteq> 0"
  shows "\<exists>env'. get_next_state ops env = Some (Inr env') \<and>
           matrix env' = [r0, [c0, Empty, Agent a, c3, c4], r2, r3, r4]"
proof -
  define env1 where "env1 = (if herbivore_birth_after (env_setup env)
                    then env\<lparr>entities := (entities env)(a := snd (give_birth ops (entities env a))),
                              calls := calls env @ [AskedBirth a]\<rparr>
                    else env)"
  have m1: "matrix env1 = matrix env" by (simp add: env1_def)
  define obs where "obs = projr (get_observation env1 (Some (Coordinates 1 1)))"
  define s2 where "s2 = snd (get_move ops obs (entities env1 a))"
  have gm: "get_move ops obs (entities env1 a) = (RIGHT, s2)"
    using right by (simp add: s2_def prod_eq_iff)
  define env2 where "env2 = env1\<lparr>entities := (entities env1)(a := s2), calls := calls env1 @ [AskedMove a]\<rparr>"
  define env3 where "env3 = env2\<lparr>matrix := [r0, [c0, Empty, Agent a, c3, c4], r2, r3, r4]\<rparr>"
  have na: "Agent a \<notin> set r0" "c0 \<noteq> Agent a" using others by force+
  have i0: "index_of (Agent a) r0 = None" using na by (simp add: index_of_None)
  have loc: "get_object_coordinates env2 a = Some (Coordinates 1 1)"
    using na i0 by (simp add: get_object_coordinates_def env2_def m1 m)
  have tgt: "matrix_get (matrix env2) (Coordinates (x_of (Coordinates 1 1) + 1) (y_of (Coordinates 1 1) + 0)) = Inr Empty"
    by (simp add: env2_def m1 m matrix_get_def py_norm_def)
  have mv: "make_move ops RIGHT a env2 = Some (Inr env3)"
    using make_move_empty [OF loc _ tgt, of RIGHT ops]
    by (simp add: occupy_def matrix_set_def py_norm_def env2_def env3_def m1 m)
  have v11: "visit ops 1 1 (env, []) = Some (Inr (env3, [a]))"
    using alive birth_none [OF nobirth, of 1 1 "[]"] gm mv
    by (simp add: visit_def m ask_and_move_def env1_def [symmetric] obs_def env2_def)
  have h3: "health ops (entities env3 a) \<noteq> 0"
    using survives by (auto simp: env3_def env2_def s2_def env1_def)
  have m3: "matrix env3 = [r0, [c0, Empty, Agent a, c3, c4], r2, r3, r4]"
    by (simp add: env3_def)
  have v21: "visit ops 2 1 (env3, [a]) = Some (Inr (env3, [a]))"
    by (rule visit_cached) (simp_all add: m3 h3)
  have n5: "[0..<5] = [0, 1, 2, 3, 4::nat]" by (simp add: upt_rec)
  have row0: "scan_row ops 0 [0..<length (matrix env ! 0)] (env, []) = Some (Inr (env, []))"
    using others by (intro scan_row_no_agents) (simp add: m row_all)
  have l1: "[0..<length (matrix env ! 1)] = [0, 1, 2, 3, 4]"
    by (simp add: m n5)
  have row1: "scan_row ops 1 [0..<length (matrix env ! 1)] (env, []) = Some (Inr (env3, [a]))"
    unfolding l1 using others v11 v21 by (simp add: visit_other m m3)
  have row2: "scan_row ops 2 [0..<length (matrix env3 ! 2)] (env3, [a]) = Some (Inr (env3, [a]))"
    using others by (intro scan_row_no_agents) (simp add: m3 row_all)
  have row3: "scan_row ops 3 [0..<length (matrix env3 ! 3)] (env3, [a]) = Some (Inr (env3, [a]))"
    using others by (intro scan_row_no_agents) (simp add: m3 row_all)
  have row4: "scan_row ops 4 [0..<length (matrix env3 ! 4)] (env3, [a]) = Some (Inr (env3, [a]))"
    using others by (intro scan_row_no_agents) (simp add: m3 row_all)
  have "scan_rows ops [0, 1, 2, 3, 4] (env, []) = Some (Inr (env3, [a]))"
    by (simp only: scan_rows.simps fst_conv bind_run_simps row0 row1 row2 row3 row4)
  moreover have "[0..<length (matrix env)] = [0, 1, 2, 3, 4]"
    by (simp add: m n5)
  ultimately show ?thesis
    by (simp add: get_next_state_def m3)
qed

lemma make_move_food:
  assumes "get_object_coordinates env obj = Some from"
    and "offset mv = Some (dx, dy)"
    and "matrix_get (matrix env) (Coordinates (x_of from + dx) (y_of from + dy)) = Inr (Food n)"
  shows "make_move ops mv obj env =
         bind_run
           (Some (occupy (Coordinates (x_of from + dx) (y_of from + dy)) from obj
              (env\<lparr>entities := (entities env)(obj := eat ops n (entities env obj)),
                    calls := calls env @ [Ate obj n]\<rparr>)))
           (\<lambda>env'. if replenish_food env'
                   then set_object_randomly (Food (food_nutrition env')) env'
                   else Some (Inr env'))"
proof -
  from assms(2) have "mv \<noteq> STAY" by auto
  with assms show ?thesis by (simp add: make_move_def)
qed

lemma move_to_food:
  assumes at: "get_object_coordinates env obj = Some from"
    and dir: "offset mv = Some (dx, dy)"
    and food: "matrix_get (matrix env) (Coordinates (x_of from + dx) (y_of from + dy)) = Inr (Food n)"
  shows "(\<not> replenish_food env \<longrightarrow> (\<exists>env'. make_move ops mv obj env = Some (Inr env')))"
    and "make_move ops mv obj env = Some (Inr env') \<Longrightarrow>
         entities env' obj = eat ops n (entities env obj) \<and>
         calls env' = calls env @ [Ate obj n] \<and>
         matrix_get (matrix env') (Coordinates (x_of from + dx) (y_of from + dy)) = Inr (Agent obj) \<and>
         (if replenish_food env
          then count_cells is_food (matrix env') = count_cells is_food (matrix env) \<and>
               (matrix_get (matrix env') from = Inr Empty \<or>
                matrix_get (matrix env') from = Inr (Food (food_nutrition env)))
          else count_cells is_food (matrix env') + 1 = count_cells is_food (matrix env) \<and>
               matrix_get (matrix env') from = Inr Empty)"
proof -
  let ?d = "Coordinates (x_of from + dx) (y_of from + dy)"
  let ?m = "matrix env"
  let ?env0 = "env\<lparr>entities := (entities env)(obj := eat ops n (entities env obj)),
                    calls := calls env @ [Ate obj n]\<rparr>"
  from get_object_coordinates_Some [OF at] obtain x y where
    f: "position ?m from = Some (x, y)" and a: "?m ! y ! x = Agent obj"
    by auto
  from food obtain k r where
    d: "position ?m ?d = Some (k, r)" and e: "?m ! r ! k = Food n"
    by (auto simp: matrix_get_Inr)
  have b1: "r < length ?m" "k < length (?m ! r)"
    using position_bounds [OF d] by simp_all
  have b2: "y < length ?m" "x < length (?m ! y)"
    using position_bounds [OF f] by simp_all
  from a e have ne: "\<not> (r = y \<and> k = x)" by auto
  let ?m1 = "put_cell k r (Agent obj) ?m"
  let ?m2 = "put_cell x y Empty ?m1"
  let ?env1 = "?env0\<lparr>matrix := ?m2\<rparr>"
  have o: "occupy ?d from obj ?env0 = Inr ?env1"
    using f d by (simp add: occupy_Inr)
  have mm: "make_move ops mv obj env =
            (if replenish_food env then set_object_randomly (Food (food_nutrition env)) ?env1
             else Some (Inr ?env1))"
    using make_move_food [OF at dir food, of ops] o by simp
  from mm show "\<not> replenish_food env \<longrightarrow> (\<exists>env'. make_move ops mv obj env = Some (Inr env'))"
    by simp
  have c1: "count_cells is_food ?m1 + 1 = count_cells is_food ?m"
    using count_cells_put_cell [OF b1, of is_food "Agent obj"] e by simp
  have "?m1 ! y ! x = Agent obj"
    using b1 ne a by (simp add: nth_put_cell)
  then have "count_cells is_food ?m2 = count_cells is_food ?m1"
    using count_cells_put_cell [of y ?m1 x is_food Empty] b2 by simp
  with c1 have c2: "count_cells is_food ?m2 + 1 = count_cells is_food ?m" by simp
  have t2: "?m2 ! r ! k = Agent obj"
    using b1 b2 ne by (simp add: nth_put_cell)
  have f2: "?m2 ! y ! x = Empty"
    using b1 b2 by (simp add: nth_put_cell)
  assume ok: "make_move ops mv obj env = Some (Inr env')"
  show "entities env' obj = eat ops n (entities env obj) \<and>
         calls env' = calls env @ [Ate obj n] \<and>
         matrix_get (matrix env') ?d = Inr (Agent obj) \<and>
         (if replenish_food env
          then count_cells is_food (matrix env') = count_cells is_food (matrix env) \<and>
               (matrix_get (matrix env') from = Inr Empty \<or>
                matrix_get (matrix env') from = Inr (Food (food_nutrition env)))
          else count_cells is_food (matrix env') + 1 = count_cells is_food (matrix env) \<and>
               matrix_get (matrix env') from = Inr Empty)"
  proof (cases "replenish_food env")
    case False
    with ok mm have "env' = ?env1" by simp
    with False c2 t2 f2 d f show ?thesis
      by (simp add: matrix_get_Inr)
  next
    case True
    with ok mm have "placed (Food (food_nutrition env)) ?env1 env'"
      by (auto dest: set_object_randomly_placed)
    then obtain k' r' rs where b3: "r' < length ?m2" "k' < length (?m2 ! r')"
      and e3: "?m2 ! r' ! k' = Empty"
      and env': "env' = ?env1\<lparr>matrix := put_cell k' r' (Food (food_nutrition env)) ?m2, draws := rs\<rparr>"
      unfolding placed_def by auto
    let ?m3 = "put_cell k' r' (Food (food_nutrition env)) ?m2"
    have c3: "count_cells is_food ?m3 = count_cells is_food ?m2 + 1"
      using count_cells_put_cell [OF b3, of is_food "Food (food_nutrition env)"] e3 by simp
    from t2 e3 have ne3: "\<not> (r' = r \<and> k' = k)" by auto
    have t3: "?m3 ! r ! k = Agent obj"
      using b3 ne3 t2 by (auto simp: nth_put_cell)
    have f3: "?m3 ! y ! x = Empty \<or> ?m3 ! y ! x = Food (food_nutrition env)"
      using b3 f2 by (simp add: nth_put_cell)
    from True c2 c3 t3 f3 d f env' show ?thesis
      by (auto simp: matrix_get_Inr)
  qed
qed

lemma move_to_food_retry:
  assumes at: "get_object_coordinates env obj = Some (Coordinates (int x) (int y))"
    and dir: "offset mv = Some (dx, dy)"
    and food: "matrix_get (matrix env) (Coordinates (int x + dx) (int y + dy)) = Inr (Food n)"
    and rep: "replenish_food env"
    and miss: "\<forall>(k, r) \<in> set ms. int k < width env \<and> int r < height env \<and>
                 r < length (matrix env) \<and> k < length (matrix env ! r) \<and>
                 matrix env ! r ! k \<noteq> Empty \<and> (k, r) \<noteq> (x, y)"
  shows "int k < width env \<Longrightarrow> int r < height env \<Longrightarrow>
         (k, r) = (x, y) \<or> r < length (matrix env) \<and> k < length (matrix env ! r) \<and>
           matrix env ! r ! k = Empty \<Longrightarrow>
         draws env = concat (map (\<lambda>(k, r). [k, r]) ms) @ k # r # rs \<Longrightarrow>
         \<exists>env'. make_move ops mv obj env = Some (Inr env') \<and> draws env' = rs \<and>
           matrix_get (matrix env') (Coordinates (int k) (int r)) = Inr (Food (food_nutrition env))"
    and "draws env = concat (map (\<lambda>(k, r). [k, r]) ms) \<Longrightarrow> make_move ops mv obj env = None"
proof -
  let ?d = "Coordinates (int x + dx) (int y + dy)"
  let ?m = "matrix env"
  let ?env0 = "env\<lparr>entities := (entities env)(obj := eat ops n (entities env obj)),
                    calls := calls env @ [Ate obj n]\<rparr>"
  from get_object_coordinates_Some [OF at] have
    b2: "y < length ?m" "x < length (?m ! y)" and a: "?m ! y ! x = Agent obj"
    by auto
  then have f: "position ?m (Coordinates (int x) (int y)) = Some (x, y)" by simp
  from food obtain k0 r0 where p: "position ?m ?d = Some (k0, r0)" and e0: "?m ! r0 ! k0 = Food n"
    by (auto simp: matrix_get_Inr)
  have b1: "r0 < length ?m" "k0 < length (?m ! r0)"
    using position_bounds [OF p] by simp_all
  let ?m2 = "put_cell x y Empty (put_cell k0 r0 (Agent obj) ?m)"
  let ?env1 = "?env0\<lparr>matrix := ?m2\<rparr>"
  have o: "occupy ?d (Coordinates (int x) (int y)) obj ?env0 = Inr ?env1"
    using f p by (simp add: occupy_Inr)
  from food have food': "matrix_get (matrix env)
      (Coordinates (x_of (Coordinates (int x) (int y)) + dx)
         (y_of (Coordinates (int x) (int y)) + dy)) = Inr (Food n)"
    by simp
  have mm: "make_move ops mv obj env = set_object_randomly (Food (food_nutrition env)) ?env1"
    using make_move_food [OF at dir food', of ops] o rep by simp
  have cell: "?m2 ! v ! u = (if (u, v) = (x, y) then Empty
                             else if (u, v) = (k0, r0) then Agent obj else ?m ! v ! u)"
    if "v < length ?m" "u < length (?m ! v)" for u v
    using that b1 b2 by (auto simp: nth_put_cell)
  have space: "has_space_left ?env1"
    using b2 cell [OF b2] by (intro has_space_left_cell [of y _ x]) simp_all
  have miss1: "\<forall>(k, r) \<in> set ms. int k < width ?env1 \<and> int r < height ?env1 \<and>
                 r < length (matrix ?env1) \<and> k < length (matrix ?env1 ! r) \<and>
                 matrix ?env1 ! r ! k \<noteq> Empty"
  proof (intro ballI, clarify)
    fix k r assume kr: "(k, r) \<in> set ms"
    with miss have 1: "int k < width env" "int r < height env" "r < length ?m"
      "k < length (?m ! r)" "?m ! r ! k \<noteq> Empty" "(k, r) \<noteq> (x, y)"
      by auto
    from cell [OF 1(3,4)] 1(5,6) have "?m2 ! r ! k \<noteq> Empty"
      by (simp split: if_splits)
    with 1 show "int k < width ?env1 \<and> int r < height ?env1 \<and>
                 r < length (matrix ?env1) \<and> k < length (matrix ?env1 ! r) \<and>
                 matrix ?env1 ! r ! k \<noteq> Empty"
      by simp
  qed
  have sm: "set_object_randomly (Food (food_nutrition env)) ?env1
            = sampling (Food (food_nutrition env)) ?env1 (draws env)"
    using space by (simp add: set_object_randomly_def)
  {
    assume d: "draws env = concat (map (\<lambda>(k, r). [k, r]) ms)"
    have "sampling (Food (food_nutrition env)) ?env1 (concat (map (\<lambda>(k, r). [k, r]) ms) @ [])
          = sampling (Food (food_nutrition env)) ?env1 []"
      by (rule sampling_misses [OF miss1])
    with mm sm d show "make_move ops mv obj env = None" by simp
  }
  {
    assume w: "int k < width env" and h: "int r < height env"
      and hit: "(k, r) = (x, y) \<or> r < length (matrix env) \<and> k < length (matrix env ! r) \<and>
           matrix env ! r ! k = Empty"
      and d: "draws env = concat (map (\<lambda>(k, r). [k, r]) ms) @ k # r # rs"
    from hit b2 have b3: "r < length ?m" "k < length (?m ! r)" by auto
    from hit e0 have "(k, r) = (x, y) \<or> (k, r) \<noteq> (k0, r0) \<and> ?m ! r ! k = Empty" by auto
    with cell [OF b3] have e: "?m2 ! r ! k = Empty" by auto
    have "sampling (Food (food_nutrition env)) ?env1 (draws env)
          = sampling (Food (food_nutrition env)) ?env1 (k # r # rs)"
      unfolding d by (rule sampling_misses [OF miss1])
    also have "\<dots> = Some (Inr (?env1\<lparr>matrix := put_cell k r (Food (food_nutrition env)) (matrix ?env1),
                             draws := rs\<rparr>))"
      using b3 e w h by (intro sampling_hit) simp_all
    finally have "make_move ops mv obj env
        = Some (Inr (?env1\<lparr>matrix := put_cell k r (Food (food_nutrition env)) (matrix ?env1),
                             draws := rs\<rparr>))"
      using mm sm by simp
    moreover have "put_cell k r (Food (food_nutrition env)) ?m2 ! r ! k = Food (food_nutrition env)"
      using b3 by (simp add: nth_put_cell)
    ultimately show "\<exists>env'. make_move ops mv obj env = Some (Inr env') \<and> draws env' = rs \<and>
           matrix_get (matrix env') (Coordinates (int k) (int r)) = Inr (Food (food_nutrition env))"
      using b3 by (simp add: matrix_get_Inr)
  }
qed


text \<open>
  Claim C5, as stated: on a 5 by 5 grid with a single agent at (1,1), a policy fixed to
  \<open>RIGHT\<close> and (2,1) vacant, the agent occupies (2,1) after one tick. The scan reaches
  (2,1) after the move and tests the agent's health before the cache of moved entities:
  an agent of health 1 whose decision costs one unit of health is erased there, and the
  grid holds no agent after the tick.
\<close>

theorem tick_right_counterexample:
  "map_option (map_sum id matrix)
     (get_next_state (fixed_policy RIGHT)
        (example_env False [wall, [Boundary, Agent 0, Empty, Empty, Boundary], vacant, vacant, wall]
           (\<lambda>_. 1) []))
   = Some (Inr [wall, vacant, vacant, vacant, wall])"
  by code_simp

text \<open>
  Claim C5, amended. For every agent found at an origin cell and every directional
  movement whose target cell is vacant, \<open>_make_move\<close> returns, the target cell then
  holds the agent and the origin cell is vacant. On a 5 by 5 grid whose only agent is
  at (1,1), with (2,1) vacant and a policy fixed to \<open>RIGHT\<close>, the tick returns, the
  agent occupies (2,1) and (1,1) is vacant, provided that the agent's health is not 0
  at the start of the tick nor after its decision and that it produces no offspring.
\<close>

theorem move_into_vacant_cell:
  "(get_object_coordinates env obj = Some from \<longrightarrow> offset mv = Some (dx, dy) \<longrightarrow>
    matrix_get (matrix env) (Coordinates (x_of from + dx) (y_of from + dy)) = Inr Empty \<longrightarrow>
      (\<exists>env'. make_move ops mv obj env = Some (Inr env') \<and>
         matrix_get (matrix env') (Coordinates (x_of from + dx) (y_of from + dy)) = Inr (Agent obj) \<and>
         matrix_get (matrix env') from = Inr Empty)) \<and>
   (matrix grid = [r0, [c0, Agent a, Empty, c3, c4], r2, r3, r4] \<longrightarrow>
    length r0 = 5 \<and> length r2 = 5 \<and> length r3 = 5 \<and> length r4 = 5 \<longrightarrow>
    (\<forall>c \<in> set r0 \<union> set r2 \<union> set r3 \<union> set r4 \<union> {c0, c3, c4}. \<not> is_agent c) \<longrightarrow>
    health ops (entities grid a) \<noteq> 0 \<longrightarrow>
    (herbivore_birth_after (env_setup grid) \<longrightarrow> fst (give_birth ops (entities grid a)) = None) \<longrightarrow>
    (\<forall>observation s. fst (get_move ops observation s) = RIGHT) \<longrightarrow>
    (\<forall>observation.
        health ops (snd (get_move ops observation
          (if herbivore_birth_after (env_setup grid)
           then snd (give_birth ops (entities grid a)) else entities grid a))) \<noteq> 0) \<longrightarrow>
      (\<exists>grid'. get_next_state ops grid = Some (Inr grid') \<and>
         matrix_get (matrix grid') (Coordinates 2 1) = Inr (Agent a) \<and>
         matrix_get (matrix grid') (Coordinates 1 1) = Inr Empty \<and>
         matrix grid' = [r0, [c0, Empty, Agent a, c3, c4], r2, r3, r4]))"
proof (intro conjI impI)
  assume "get_object_coordinates env obj = Some from" "offset mv = Some (dx, dy)"
    "matrix_get (matrix env) (Coordinates (x_of from + dx) (y_of from + dy)) = Inr Empty"
  then show "\<exists>env'. make_move ops mv obj env = Some (Inr env') \<and>
         matrix_get (matrix env') (Coordinates (x_of from + dx) (y_of from + dy)) = Inr (Agent obj) \<and>
         matrix_get (matrix env') from = Inr Empty"
    by (rule move_to_empty)
next
  assume "matrix grid = [r0, [c0, Agent a, Empty, c3, c4], r2, r3, r4]"
    "\<forall>c \<in> set r0 \<union> set r2 \<union> set r3 \<union> set r4 \<union> {c0, c3, c4}. \<not> is_agent c"
    "health ops (entities grid a) \<noteq> 0"
    "herbivore_birth_after (env_setup grid) \<longrightarrow> fst (give_birth ops (entities grid a)) = None"
    "\<forall>observation s. fst (get_move ops observation s) = RIGHT"
    "\<forall>observation.
        health ops (snd (get_move ops observation
          (if herbivore_birth_after (env_setup grid)
           then snd (give_birth ops (entities grid a)) else entities grid a))) \<noteq> 0"
  from tick_right [OF this] obtain grid' where
    g: "get_next_state ops grid = Some (Inr grid')"
      "matrix grid' = [r0, [c0, Empty, Agent a, c3, c4], r2, r3, r4]"
    by auto
  then show "\<exists>grid'. get_next_state ops grid = Some (Inr grid') \<and>
         matrix_get (matrix grid') (Coordinates 2 1) = Inr (Agent a) \<and>
         matrix_get (matrix grid') (Coordinates 1 1) = Inr Empty \<and>
         matrix grid' = [r0, [c0, Empty, Agent a, c3, c4], r2, r3, r4]"
    by (simp add: matrix_get_def py_norm_def)
qed

theorem move_into_vacant_cell_witness:
  "map_option (map_sum id matrix)
     (make_move (fixed_policy DOWN_RIGHT) DOWN_RIGHT 0
        (example_env False [wall, [Boundary, Agent 0, Empty, Food 10, Boundary], vacant, vacant, wall]
           (\<lambda>_. 5) []))
   = Some (Inr [wall, [Boundary, Empty, Empty, Food 10, Boundary],
                [Boundary, Empty, Agent 0, Empty, Boundary], vacant, wall]) \<and>
   map_option (map_sum id matrix)
     (get_next_state (fixed_policy RIGHT)
        (example_env False [wall, [Boundary, Agent 0, Empty, Food 10, Boundary], vacant, vacant, wall]
           (\<lambda>_. 5) []))
   = Some (Inr [wall, [Boundary, Empty, Agent 0, Food 10, Boundary], vacant, vacant, wall])"
proof -
  let ?env = "example_env False
        [wall, [Boundary, Agent 0, Empty, Food 10, Boundary], vacant, vacant, wall] (\<lambda>_. 5) []"
  have at: "get_object_coordinates ?env 0 = Some (Coordinates 1 1)"
    by (simp add: get_object_coordinates_def example_env_def wall_def)
  have dir: "offset DOWN_RIGHT = Some (1, 1)" by simp
  have tgt: "matrix_get (matrix ?env) (Coordinates (x_of (Coordinates 1 1) + 1)
               (y_of (Coordinates 1 1) + 1)) = Inr Empty"
    by (simp add: matrix_get_def py_norm_def example_env_def vacant_def)
  have m: "matrix ?env = [wall, [Boundary, Agent 0, Empty, Food 10, Boundary], vacant, vacant, wall]"
    by (simp add: example_env_def)
  have len: "length wall = 5 \<and> length vacant = 5 \<and> length vacant = 5 \<and> length wall = 5"
    by (simp add: wall_def vacant_def)
  have others: "\<forall>c \<in> set wall \<union> set vacant \<union> set vacant \<union> set wall \<union> {Boundary, Food 10, Boundary}.
                  \<not> is_agent c"
    by (simp add: wall_def vacant_def)
  have alive: "health (fixed_policy RIGHT) (entities ?env 0) \<noteq> 0"
    by (simp add: fixed_policy_def example_env_def)
  have nobirth: "herbivore_birth_after (env_setup ?env) \<longrightarrow>
                  fst (give_birth (fixed_policy RIGHT) (entities ?env 0)) = None"
    by (simp add: fixed_policy_def)
  have right: "\<forall>observation s. fst (get_move (fixed_policy RIGHT) observation s) = RIGHT"
    by (simp add: fixed_policy_def)
  have survives: "\<forall>observation.
        health (fixed_policy RIGHT) (snd (get_move (fixed_policy RIGHT) observation
          (if herbivore_birth_after (env_setup ?env)
           then snd (give_birth (fixed_policy RIGHT) (entities ?env 0)) else entities ?env 0))) \<noteq> 0"
    by (simp add: fixed_policy_def example_env_def)
  have general: "\<exists>env'. make_move (fixed_policy DOWN_RIGHT) DOWN_RIGHT 0 ?env = Some (Inr env') \<and>
         matrix_get (matrix env') (Coordinates (x_of (Coordinates 1 1) + 1) (y_of (Coordinates 1 1) + 1))
           = Inr (Agent 0) \<and>
         matrix_get (matrix env') (Coordinates 1 1) = Inr Empty"
    using move_into_vacant_cell [THEN conjunct1, THEN mp, OF at, THEN mp, OF dir, THEN mp, OF tgt] .
  have tick: "\<exists>grid'. get_next_state (fixed_policy RIGHT) ?env = Some (Inr grid') \<and>
         matrix_get (matrix grid') (Coordinates 2 1) = Inr (Agent 0) \<and>
         matrix_get (matrix grid') (Coordinates 1 1) = Inr Empty \<and>
         matrix grid' = [wall, [Boundary, Empty, Agent 0, Food 10, Boundary], vacant, vacant, wall]"
    using move_into_vacant_cell [THEN conjunct2, THEN mp, OF m, THEN mp, OF len, THEN mp, OF others,
        THEN mp, OF alive, THEN mp, OF nobirth, THEN mp, OF right, THEN mp, OF survives] .
  have "map_option (map_sum id matrix) (make_move (fixed_policy DOWN_RIGHT) DOWN_RIGHT 0 ?env)
        = Some (Inr [wall, [Boundary, Empty, Empty, Food 10, Boundary],
                [Boundary, Empty, Agent 0, Empty, Boundary], vacant, wall])"
    by code_simp
  with general tick show ?thesis by auto
qed

text \<open>
  Claim C3, as stated: after a move into a cell holding food the origin cell is vacant.
  With replenishment the new food is placed on any cell that is vacant after the move,
  the origin included: with the draws that select (1,1), the origin holds the new food.
\<close>

theorem food_on_origin_counterexample:
  "map_option (map_sum id matrix)
     (make_move (fixed_policy RIGHT) RIGHT 0
        (example_env True [wall, [Boundary, Agent 0, Food 10, Empty, Boundary], vacant, vacant, wall]
           (\<lambda>_. 5) [1, 1]))
   = Some (Inr [wall, [Boundary, Food 10, Agent 0, Empty, Boundary], vacant, vacant, wall])"
  by code_simp

text \<open>
  Claim C3, amended. For every agent move whose target cell holds \<open>Food n\<close>: without
  replenishment the move returns. With replenishment the sampling loop draws again
  after every draw that selects a cell occupied after the move, and the move returns at
  the first draw that selects a cell vacant after the move, which is the origin or a
  cell that was vacant before; the new food is placed there. While every draw supplied
  has selected an occupied cell the move has not returned. Whenever the move returns,
  the agent's \<open>eat\<close> has been called with that food, the agent occupies the target
  cell, and without replenishment the origin cell is vacant and the number of food cells
  has decreased by exactly one, while with replenishment the number of food cells is the
  same as before the move and the origin cell is vacant unless the new food was placed
  on it.
\<close>

theorem move_into_food:
  assumes "get_object_coordinates env obj = Some origin"
    and "offset mv = Some (dx, dy)"
    and "matrix_get (matrix env) (Coordinates (x_of origin + dx) (y_of origin + dy)) = Inr (Food n)"
  shows "(\<not> replenish_food env \<longrightarrow> (\<exists>env'. make_move ops mv obj env = Some (Inr env'))) \<and>
         (replenish_food env \<longrightarrow> origin = Coordinates (int x) (int y) \<longrightarrow>
          (\<forall>(k, r) \<in> set ms. int k < width env \<and> int r < height env \<and>
             r < length (matrix env) \<and> k < length (matrix env ! r) \<and>
             matrix env ! r ! k \<noteq> Empty \<and> (k, r) \<noteq> (x, y)) \<longrightarrow>
            (int k < width env \<longrightarrow> int r < height env \<longrightarrow>
             ((k, r) = (x, y) \<or> r < length (matrix env) \<and> k < length (matrix env ! r) \<and>
                matrix env ! r ! k = Empty) \<longrightarrow>
             draws env = concat (map (\<lambda>(k, r). [k, r]) ms) @ k # r # rs \<longrightarrow>
               (\<exists>env'. make_move ops mv obj env = Some (Inr env') \<and> draws env' = rs \<and>
                  matrix_get (matrix env') (Coordinates (int k) (int r))
                    = Inr (Food (food_nutrition env)))) \<and>
            (draws env = concat (map (\<lambda>(k, r). [k, r]) ms) \<longrightarrow>
               make_move ops mv obj env = None)) \<and>
         (\<forall>env'. make_move ops mv obj env = Some (Inr env') \<longrightarrow>
            entities env' obj = eat ops n (entities env obj) \<and>
            calls env' = calls env @ [Ate obj n] \<and>
            matrix_get (matrix env') (Coordinates (x_of origin + dx) (y_of origin + dy))
              = Inr (Agent obj) \<and>
            (if replenish_food env
             then count_cells is_food (matrix env') = count_cells is_food (matrix env) \<and>
                  (matrix_get (matrix env') origin = Inr Empty \<or>
                   matrix_get (matrix env') origin = Inr (Food (food_nutrition env)))
             else count_cells is_food (matrix env') + 1 = count_cells is_food (matrix env) \<and>
                  matrix_get (matrix env') origin = Inr Empty))"
proof -
  have a: "\<not> replenish_food env \<longrightarrow> (\<exists>env'. make_move ops mv obj env = Some (Inr env'))"
    using move_to_food(1) [OF assms] .
  have b: "replenish_food env \<longrightarrow> origin = Coordinates (int x) (int y) \<longrightarrow>
          (\<forall>(k, r) \<in> set ms. int k < width env \<and> int r < height env \<and>
             r < length (matrix env) \<and> k < length (matrix env ! r) \<and>
             matrix env ! r ! k \<noteq> Empty \<and> (k, r) \<noteq> (x, y)) \<longrightarrow>
            (int k < width env \<longrightarrow> int r < height env \<longrightarrow>
             ((k, r) = (x, y) \<or> r < length (matrix env) \<and> k < length (matrix env ! r) \<and>
                matrix env ! r ! k = Empty) \<longrightarrow>
             draws env = concat (map (\<lambda>(k, r). [k, r]) ms) @ k # r # rs \<longrightarrow>
               (\<exists>env'. make_move ops mv obj env = Some (Inr env') \<and> draws env' = rs \<and>
                  matrix_get (matrix env') (Coordinates (int k) (int r))
                    = Inr (Food (food_nutrition env)))) \<and>
            (draws env = concat (map (\<lambda>(k, r). [k, r]) ms) \<longrightarrow>
               make_move ops mv obj env = None)"
  proof (intro impI)
    assume r: "replenish_food env" and o: "origin = Coordinates (int x) (int y)"
      and miss: "\<forall>(k, r) \<in> set ms. int k < width env \<and> int r < height env \<and>
             r < length (matrix env) \<and> k < length (matrix env ! r) \<and>
             matrix env ! r ! k \<noteq> Empty \<and> (k, r) \<noteq> (x, y)"
    from assms(1,3) o have at: "get_object_coordinates env obj = Some (Coordinates (int x) (int y))"
      and food: "matrix_get (matrix env) (Coordinates (int x + dx) (int y + dy)) = Inr (Food n)"
      by simp_all
    note retry = move_to_food_retry [OF at assms(2) food r miss, where ops = ops]
    have 1: "int k < width env \<longrightarrow> int r < height env \<longrightarrow>
             ((k, r) = (x, y) \<or> r < length (matrix env) \<and> k < length (matrix env ! r) \<and>
                matrix env ! r ! k = Empty) \<longrightarrow>
             draws env = concat (map (\<lambda>(k, r). [k, r]) ms) @ k # r # rs \<longrightarrow>
               (\<exists>env'. make_move ops mv obj env = Some (Inr env') \<and> draws env' = rs \<and>
                  matrix_get (matrix env') (Coordinates (int k) (int r))
                    = Inr (Food (food_nutrition env)))"
      using retry(1) [where k = k and r = r and rs = rs] by blast
    have 2: "draws env = concat (map (\<lambda>(k, r). [k, r]) ms) \<longrightarrow> make_move ops mv obj env = None"
      using retry(2) by blast
    from 1 2 show "(int k < width env \<longrightarrow> int r < height env \<longrightarrow>
             ((k, r) = (x, y) \<or> r < length (matrix env) \<and> k < length (matrix env ! r) \<and>
                matrix env ! r ! k = Empty) \<longrightarrow>
             draws env = concat (map (\<lambda>(k, r). [k, r]) ms) @ k # r # rs \<longrightarrow>
               (\<exists>env'. make_move ops mv obj env = Some (Inr env') \<and> draws env' = rs \<and>
                  matrix_get (matrix env') (Coordinates (int k) (int r))
                    = Inr (Food (food_nutrition env)))) \<and>
            (draws env = concat (map (\<lambda>(k, r). [k, r]) ms) \<longrightarrow>
               make_move ops mv obj env = None)"
      by (rule conjI)
  qed
  have c: "\<forall>env'. make_move ops mv obj env = Some (Inr env') \<longrightarrow>
            entities env' obj = eat ops n (entities env obj) \<and>
            calls env' = calls env @ [Ate obj n] \<and>
            matrix_get (matrix env') (Coordinates (x_of origin + dx) (y_of origin + dy))
              = Inr (Agent obj) \<and>
            (if replenish_food env
             then count_cells is_food (matrix env') = count_cells is_food (matrix env) \<and>
                  (matrix_get (matrix env') origin = Inr Empty \<or>
                   matrix_get (matrix env') origin = Inr (Food (food_nutrition env)))
             else count_cells is_food (matrix env') + 1 = count_cells is_food (matrix env) \<and>
                  matrix_get (matrix env') origin = Inr Empty)"
    using move_to_food(2) [OF assms] by blast
  show ?thesis by (rule conjI [OF a conjI [OF b c]])
qed

theorem move_into_food_witness:
  "(\<exists>env'. make_move (fixed_policy RIGHT) RIGHT 0
        (example_env True [wall, [Boundary, Agent 0, Food 7, Empty, Boundary], vacant, vacant, wall]
           (\<lambda>_. 5) [0, 0, 2, 1, 3, 3, 7, 7]) = Some (Inr env') \<and>
      entities env' 0 = 12 \<and> calls env' = [Ate 0 7] \<and> draws env' = [7, 7] \<and>
      matrix_get (matrix env') (Coordinates 2 1) = Inr (Agent 0) \<and>
      matrix_get (matrix env') (Coordinates 3 3) = Inr (Food 10) \<and>
      matrix_get (matrix env') (Coordinates 1 1) = Inr Empty \<and>
      count_cells is_food (matrix env') = 1) \<and>
   make_move (fixed_policy RIGHT) RIGHT 0
        (example_env True [wall, [Boundary, Agent 0, Food 7, Empty, Boundary], vacant, vacant, wall]
           (\<lambda>_. 5) [0, 0, 2, 1]) = None \<and>
   (\<exists>env'. make_move (fixed_policy RIGHT) RIGHT 0
        (example_env False [wall, [Boundary, Agent 0, Food 7, Empty, Boundary], vacant, vacant, wall]
           (\<lambda>_. 5) []) = Some (Inr env') \<and>
      count_cells is_food (matrix env') = 0 \<and>
      matrix_get (matrix env') (Coordinates 1 1) = Inr Empty)"
proof -
  let ?m = "[wall, [Boundary, Agent 0, Food 7, Empty, Boundary], vacant, vacant, wall]"
  let ?e1 = "example_env True ?m (\<lambda>_. 5) [0, 0, 2, 1, 3, 3, 7, 7]"
  let ?e3 = "example_env True ?m (\<lambda>_. 5) [0, 0, 2, 1]"
  let ?e2 = "example_env False ?m (\<lambda>_. 5) []"
  let ?ops = "fixed_policy RIGHT"
  let ?ms = "[(0, 0), (2, 1)] :: (nat \<times> nat) list"
  have dir: "offset RIGHT = Some (1, 0)" by simp
  have at1: "get_object_coordinates ?e1 0 = Some (Coordinates 1 1)"
    by (simp add: get_object_coordinates_def example_env_def wall_def)
  have at3: "get_object_coordinates ?e3 0 = Some (Coordinates 1 1)"
    by (simp add: get_object_coordinates_def example_env_def wall_def)
  have at2: "get_object_coordinates ?e2 0 = Some (Coordinates 1 1)"
    by (simp add: get_object_coordinates_def example_env_def wall_def)
  have t1: "matrix_get (matrix ?e1) (Coordinates (x_of (Coordinates 1 1) + 1)
               (y_of (Coordinates 1 1) + 0)) = Inr (Food 7)"
    by (simp add: matrix_get_def py_norm_def example_env_def)
  have t3: "matrix_get (matrix ?e3) (Coordinates (x_of (Coordinates 1 1) + 1)
               (y_of (Coordinates 1 1) + 0)) = Inr (Food 7)"
    by (simp add: matrix_get_def py_norm_def example_env_def)
  have t2: "matrix_get (matrix ?e2) (Coordinates (x_of (Coordinates 1 1) + 1)
               (y_of (Coordinates 1 1) + 0)) = Inr (Food 7)"
    by (simp add: matrix_get_def py_norm_def example_env_def)
  have o: "Coordinates 1 1 = Coordinates (int 1) (int 1)" by simp
  have rep1: "replenish_food ?e1" and rep3: "replenish_food ?e3"
    by (simp_all add: example_env_def)
  have miss1: "\<forall>(k, r) \<in> set ?ms. int k < width ?e1 \<and> int r < height ?e1 \<and>
             r < length (matrix ?e1) \<and> k < length (matrix ?e1 ! r) \<and>
             matrix ?e1 ! r ! k \<noteq> Empty \<and> (k, r) \<noteq> (1, 1)"
    by (simp add: example_env_def wall_def)
  have miss3: "\<forall>(k, r) \<in> set ?ms. int k < width ?e3 \<and> int r < height ?e3 \<and>
             r < length (matrix ?e3) \<and> k < length (matrix ?e3 ! r) \<and>
             matrix ?e3 ! r ! k \<noteq> Empty \<and> (k, r) \<noteq> (1, 1)"
    by (simp add: example_env_def wall_def)
  have hit: "int 3 < width ?e1" "int 3 < height ?e1"
    "(3, 3) = (1, 1) \<or> 3 < length (matrix ?e1) \<and> 3 < length (matrix ?e1 ! 3) \<and>
       matrix ?e1 ! 3 ! 3 = Empty"
    "draws ?e1 = concat (map (\<lambda>(k, r). [k, r]) ?ms) @ 3 # 3 # [7, 7]"
    by (simp_all add: example_env_def vacant_def)
  have d3: "draws ?e3 = concat (map (\<lambda>(k, r). [k, r]) ?ms)"
    by (simp add: example_env_def)
  have n1: "food_nutrition ?e1 = 10" by (simp add: example_env_def)
  from move_into_food [OF at1 dir t1, where x = 1 and y = 1 and ms = ?ms and k = 3 and r = 3
      and rs = "[7, 7]" and ops = ?ops,
      THEN conjunct2, THEN conjunct1, THEN mp, OF rep1, THEN mp, OF o, THEN mp, OF miss1,
      THEN conjunct1, THEN mp, OF hit(1), THEN mp, OF hit(2), THEN mp, OF hit(3), THEN mp, OF hit(4)]
  obtain env1 where r1: "make_move ?ops RIGHT 0 ?e1 = Some (Inr env1)"
    and d1: "draws env1 = [7, 7]"
    and o1: "matrix_get (matrix env1) (Coordinates 3 3) = Inr (Food 10)"
    unfolding n1 by auto
  from move_into_food [OF at3 dir t3, where x = 1 and y = 1 and ms = ?ms and ops = ?ops,
      THEN conjunct2, THEN conjunct1, THEN mp, OF rep3, THEN mp, OF o, THEN mp, OF miss3,
      THEN conjunct2, THEN mp, OF d3]
  have r3: "make_move ?ops RIGHT 0 ?e3 = None" .
  have facts: "replenish_food ?e1" "\<not> replenish_food ?e2"
    "eat ?ops 7 (entities ?e1 0) = 12" "calls ?e1 = []"
    "count_cells is_food (matrix ?e1) = 1" "count_cells is_food (matrix ?e2) = 1"
    by (simp_all add: example_env_def fixed_policy_def count_cells_def wall_def vacant_def)
  note c1 = move_into_food [OF at1 dir t1, where ops = ?ops, THEN conjunct2, THEN conjunct2]
  note c2 = move_into_food [OF at2 dir t2, where ops = ?ops]
  from c2 [THEN conjunct1] facts obtain env2 where
    r2: "make_move ?ops RIGHT 0 ?e2 = Some (Inr env2)" by blast
  from c1 r1 facts n1 have g: "entities env1 0 = 12 \<and> calls env1 = [Ate 0 7] \<and>
      matrix_get (matrix env1) (Coordinates 2 1) = Inr (Agent 0) \<and>
      count_cells is_food (matrix env1) = 1 \<and>
      (matrix_get (matrix env1) (Coordinates 1 1) = Inr Empty \<or>
       matrix_get (matrix env1) (Coordinates 1 1) = Inr (Food 10))"
    by simp
  have "map_option (map_sum id (\<lambda>env. matrix_get (matrix env) (Coordinates 1 1)))
          (make_move ?ops RIGHT 0 ?e1) = Some (Inr (Inr Empty))"
    by code_simp
  with r1 have e1: "matrix_get (matrix env1) (Coordinates 1 1) = Inr Empty" by simp
  from c2 [THEN conjunct2, THEN conjunct2] r2 facts
  have "count_cells is_food (matrix env2) = 0 \<and>
      matrix_get (matrix env2) (Coordinates 1 1) = Inr Empty"
    by simp
  with g e1 show ?thesis using r1 r2 r3 o1 d1 by blast
qed

section \<open>Initial placement\<close>

lemma placed_count:
  assumes "placed obj env env'"
  shows "count_cells P (matrix env') + (if P Empty then 1 else 0)
         = count_cells P (matrix env) + (if P obj then 1 else 0)"
proof -
  from assms obtain k r rs where b: "r < length (matrix env)" "k < length (matrix env ! r)"
    and e: "matrix env ! r ! k = Empty"
    and env': "env' = env\<lparr>matrix := put_cell k r obj (matrix env), draws := rs\<rparr>"
    unfolding placed_def by auto
  from count_cells_put_cell [OF b, of P obj] e env' show ?thesis by simp
qed

lemma placed_fields:
  assumes "placed obj env env'"
  shows "herbivores env' = herbivores env" "food_nutrition env' = food_nutrition env"
    "herbivore_food_amount env' = herbivore_food_amount env" "width env' = width env"
    "height env' = height env" "replenish_food env' = replenish_food env"
    "env_setup env' = env_setup env" "entities env' = entities env" "fresh env' = fresh env"
    "calls env' = calls env" "map length (matrix env') = map length (matrix env)"
  using assms unfolding placed_def by auto

lemma placed_cells:
  assumes "placed obj env env'" "y < length (matrix env)" "x < length (matrix env ! y)"
  shows "matrix env' ! y ! x = matrix env ! y ! x \<or>
         (matrix env ! y ! x = Empty \<and> matrix env' ! y ! x = obj)"
  using assms unfolding placed_def by (auto simp: nth_put_cell split: if_splits)

lemma shape_lengths:
  assumes "map length m' = map length m"
  shows "length m' = length m" and "y < length m \<Longrightarrow> length (m' ! y) = length (m ! y)"
proof -
  from assms show l: "length m' = length m" by (metis length_map)
  assume "y < length m"
  with assms l show "length (m' ! y) = length (m ! y)" by (metis nth_map)
qed

lemma place_each_append:
  "place_each (xs @ ys) env = bind_run (place_each xs env) (place_each ys)"
proof (induction xs arbitrary: env)
  case Nil
  then show ?case by simp
next
  case (Cons obj xs)
  show ?case
  proof (cases "set_object_randomly obj env")
    case None
    then show ?thesis by simp
  next
    case (Some u)
    with Cons show ?thesis by (cases u) simp_all
  qed
qed

lemma place_each_effect:
  assumes "place_each objs env = Some (Inr env')"
  shows "count_cells P (matrix env') + (if P Empty then length objs else 0)
         = count_cells P (matrix env) + length (filter P objs)"
    and "herbivores env' = herbivores env \<and> food_nutrition env' = food_nutrition env \<and>
         herbivore_food_amount env' = herbivore_food_amount env"
    and "map length (matrix env') = map length (matrix env)"
    and "\<forall>y x. y < length (matrix env) \<longrightarrow> x < length (matrix env ! y) \<longrightarrow>
           matrix env' ! y ! x = matrix env ! y ! x \<or> matrix env ! y ! x = Empty"
  using assms
proof (induction objs arbitrary: env)
  case Nil
  {
    case 1 then show ?case by simp
  next
    case 2 then show ?case by simp
  next
    case 3 then show ?case by simp
  next
    case 4 then show ?case by simp
  }
next
  case (Cons obj objs)
  {
    case 1
    then obtain env1 where s: "set_object_randomly obj env = Some (Inr env1)"
      and r: "place_each objs env1 = Some (Inr env')"
      by (auto simp: bind_run_Inr)
    from placed_count [OF set_object_randomly_placed [OF s], of P] Cons.IH(1) [OF r]
    show ?case by (simp split: if_splits)
  next
    case 2
    then obtain env1 where s: "set_object_randomly obj env = Some (Inr env1)"
      and r: "place_each objs env1 = Some (Inr env')"
      by (auto simp: bind_run_Inr)
    from placed_fields [OF set_object_randomly_placed [OF s]] Cons.IH(2) [OF r]
    show ?case by simp
  next
    case 3
    then obtain env1 where s: "set_object_randomly obj env = Some (Inr env1)"
      and r: "place_each objs env1 = Some (Inr env')"
      by (auto simp: bind_run_Inr)
    from placed_fields(11) [OF set_object_randomly_placed [OF s]] Cons.IH(3) [OF r]
    show ?case by simp
  next
    case 4
    then obtain env1 where s: "set_object_randomly obj env = Some (Inr env1)"
      and r: "place_each objs env1 = Some (Inr env')"
      by (auto simp: bind_run_Inr)
    note p = set_object_randomly_placed [OF s]
    note sh = shape_lengths [OF placed_fields(11) [OF p]]
    show ?case
    proof (intro allI impI)
      fix y x
      assume y: "y < length (matrix env)" and x: "x < length (matrix env ! y)"
      from placed_cells [OF p y x] have
        "matrix env1 ! y ! x = matrix env ! y ! x \<or> matrix env ! y ! x = Empty" by auto
      moreover from Cons.IH(4) [OF r] y x sh have
        "matrix env' ! y ! x = matrix env1 ! y ! x \<or> matrix env1 ! y ! x = Empty" by simp
      moreover from placed_cells [OF p y x] have
        "matrix env1 ! y ! x = Empty \<longrightarrow> matrix env ! y ! x = Empty" by auto
      ultimately show "matrix env' ! y ! x = matrix env ! y ! x \<or> matrix env ! y ! x = Empty"
        by auto
    qed
  }
qed

lemma place_each_no_space:
  assumes "place_each done env = Some (Inr env1)" and "\<not> has_space_left env1"
  shows "place_each (done @ obj # rest) env = Some (Inl SetupEnvironmentError)"
  using assms by (simp add: place_each_append set_object_randomly_def)

lemma count_cells_zero:
  "(\<forall>row \<in> set m. \<forall>c \<in> set row. \<not> P c) \<Longrightarrow> count_cells P m = 0"
  by (simp add: count_cells_def)

lemma blank_cells:
  "\<forall>row \<in> set (create_blank_matrix w h). \<forall>c \<in> set row. c = Empty \<or> c = Boundary"
  by (auto simp: create_blank_matrix_def)

lemma count_cells_blank:
  "\<not> P Empty \<Longrightarrow> \<not> P Boundary \<Longrightarrow> count_cells P (create_blank_matrix w h) = 0"
  using blank_cells [of w h] by (intro count_cells_zero) metis

lemma filter_agents:
  "length (filter (\<lambda>c. c = Agent b) (map Agent hs)) = count_list hs b"
  "length (filter is_agent (map Agent hs)) = length hs"
  "filter is_food (map Agent hs) = []"
  "filter (\<lambda>c. c = Food n) (map Agent hs) = []"
  "length (filter (\<lambda>c. c = Empty) (map Agent hs)) = 0"
  by (induction hs) simp_all

lemma count_agent:
  "length (filter ((\<lambda>c. c = Agent b) \<circ> Agent) hs) = count_list hs b"
  by (induction hs) simp_all

lemma filter_foods:
  "filter (\<lambda>c. c = Agent b) (replicate k (Food n)) = []"
  "filter is_agent (replicate k (Food n)) = []"
  "length (filter is_food (replicate k (Food n))) = k"
  "length (filter (\<lambda>c. c = Food n) (replicate k (Food n))) = k"
  "length (filter (\<lambda>c. c = Empty) (replicate k (Food n))) = 0"
  by (induction k) simp_all

lemma setup_initial_state_places:
  assumes "herbivores env \<noteq> []"
  shows "setup_initial_state env =
         place_each (map Agent (herbivores env) @
                     replicate (nat (herbivore_food_amount env)) (Food (food_nutrition env)))
           (env\<lparr>matrix := create_blank_matrix (width env) (height env)\<rparr>)"
proof -
  let ?env0 = "env\<lparr>matrix := create_blank_matrix (width env) (height env)\<rparr>"
  have "place_each (map Agent (herbivores env) @
                     replicate (nat (herbivore_food_amount env)) (Food (food_nutrition env))) ?env0
        = bind_run (place_each (map Agent (herbivores env)) ?env0) (\<lambda>env1.
             place_each
               (replicate (nat (herbivore_food_amount env1)) (Food (food_nutrition env1))) env1)"
  proof (cases "place_each (map Agent (herbivores env)) ?env0")
    case None
    then show ?thesis by (simp add: place_each_append)
  next
    case (Some u)
    show ?thesis
    proof (cases u)
      case (Inl e)
      with Some show ?thesis by (simp add: place_each_append)
    next
      case (Inr env1)
      with Some place_each_effect(2) [of "map Agent (herbivores env)" ?env0 env1]
      show ?thesis by (simp add: place_each_append)
    qed
  qed
  with assms show ?thesis
    by (cases "herbivores env") (simp_all add: setup_initial_state_def Let_def)
qed

lemma setup_initial_state_no_herbivores:
  "herbivores env = [] \<Longrightarrow> setup_initial_state env = Some (Inl SetupEnvironmentError)"
  by (simp add: setup_initial_state_def Let_def)

lemma count_cells_pos:
  assumes "0 < count_cells P m"
  shows "\<exists>r k. r < length m \<and> k < length (m ! r) \<and> P (m ! r ! k)"
proof -
  from assms count_cells_zero [of m P] obtain row c where
    row: "row \<in> set m" and c: "c \<in> set row" "P c"
    by auto
  from row obtain r where "r < length m" "m ! r = row" by (auto simp: in_set_conv_nth)
  moreover from c(1) obtain k where "k < length row" "row ! k = c" by (auto simp: in_set_conv_nth)
  ultimately show ?thesis using c(2) by auto
qed

lemma place_each_lucky:
  assumes "length (matrix env) = nat (width env)"
    and "\<forall>row \<in> set (matrix env). length row = nat (height env)"
    and "width env = height env"
    and "length objs \<le> count_cells (\<lambda>c. c = Empty) (matrix env)"
  shows "\<exists>rs env'. place_each objs (env\<lparr>draws := rs\<rparr>) = Some (Inr env')"
  using assms
proof (induction objs arbitrary: env)
  case Nil
  then show ?case by simp
next
  case (Cons obj objs)
  from Cons.prems(4) have "0 < count_cells (\<lambda>c. c = Empty) (matrix env)" by simp
  from count_cells_pos [OF this] obtain r k where
    r: "r < length (matrix env)" and k: "k < length (matrix env ! r)"
    and e: "matrix env ! r ! k = Empty"
    by auto
  let ?env1 = "env\<lparr>matrix := put_cell k r obj (matrix env)\<rparr>"
  have sh: "map length (matrix ?env1) = map length (matrix env)" by simp
  have 1: "length (matrix ?env1) = nat (width ?env1)"
    using Cons.prems(1) by simp
  have 2: "\<forall>row \<in> set (matrix ?env1). length row = nat (height ?env1)"
  proof
    fix row assume "row \<in> set (matrix ?env1)"
    then obtain y where y: "y < length (matrix env)" and row: "row = put_cell k r obj (matrix env) ! y"
      by (auto simp: in_set_conv_nth)
    from y Cons.prems(2) have "length (matrix env ! y) = nat (height env)" by simp
    with row show "length row = nat (height ?env1)" by simp
  qed
  have 3: "width ?env1 = height ?env1" using Cons.prems(3) by simp
  have 4: "length objs \<le> count_cells (\<lambda>c. c = Empty) (matrix ?env1)"
    using count_cells_put_cell [OF r k, of "\<lambda>c. c = Empty" obj] e Cons.prems(4)
    by (simp split: if_splits)
  from Cons.IH [OF 1 2 3 4] obtain rs env' where
    ih: "place_each objs (?env1\<lparr>draws := rs\<rparr>) = Some (Inr env')" by auto
  have "length (matrix env ! r) = nat (height env)"
    using r Cons.prems(2) by simp
  with k Cons.prems(3) have kw: "int k < width env" by simp
  have rh: "int r < height env"
    using r Cons.prems(1,3) by simp
  have "set_object_randomly obj (env\<lparr>draws := k # r # rs\<rparr>)
        = Some (Inr (?env1\<lparr>draws := rs\<rparr>))"
    using set_object_randomly_hit [of r "env\<lparr>draws := k # r # rs\<rparr>" k rs obj] r k e kw rh
    by simp
  with ih have "place_each (obj # objs) (env\<lparr>draws := k # r # rs\<rparr>) = Some (Inr env')"
    by simp
  then show ?case by blast
qed

lemma blank_rows:
  "\<forall>row \<in> set (create_blank_matrix w h). length row = nat h"
  by (auto simp: create_blank_matrix_def)

text \<open>
  \<open>setup_initial_state\<close> on any grid, with a non-empty list of N agents and food amount
  M: whenever it returns, every listed agent is in as many cells as it is listed, N
  cells hold agents, M cells hold food (each of the configured nutrition), these N + M
  cells were vacant in the blank matrix and the other cells are those of the blank
  matrix. With no agent registered it raises \<open>SetupEnvironmentError\<close>. It raises
  \<open>SetupEnvironmentError\<close> when an object is to be placed and the matrix, after the
  placements made so far, has no vacant cell. On a square grid with at least N + M
  vacant cells there are draws for which it returns.
\<close>

lemma setup_initial_state_on_return:
  "(\<forall>env'. setup_initial_state env = Some (Inr env') \<longrightarrow>
      herbivores env \<noteq> [] \<and>
      (\<forall>b. count_cells (\<lambda>c. c = Agent b) (matrix env') = count_list (herbivores env) b) \<and>
      count_cells is_agent (matrix env') = length (herbivores env) \<and>
      count_cells is_food (matrix env') = nat (herbivore_food_amount env) \<and>
      count_cells (\<lambda>c. c = Food (food_nutrition env)) (matrix env')
        = nat (herbivore_food_amount env) \<and>
      count_cells (\<lambda>c. c = Empty) (matrix env') + length (herbivores env)
          + nat (herbivore_food_amount env)
        = count_cells (\<lambda>c. c = Empty) (create_blank_matrix (width env) (height env)) \<and>
      map length (matrix env') = map length (create_blank_matrix (width env) (height env)) \<and>
      (\<forall>y x. y < length (create_blank_matrix (width env) (height env)) \<longrightarrow>
             x < length (create_blank_matrix (width env) (height env) ! y) \<longrightarrow>
             matrix env' ! y ! x = create_blank_matrix (width env) (height env) ! y ! x \<or>
             create_blank_matrix (width env) (height env) ! y ! x = Empty)) \<and>
   (herbivores env = [] \<longrightarrow> setup_initial_state env = Some (Inl SetupEnvironmentError)) \<and>
   (herbivores env \<noteq> [] \<longrightarrow>
    map Agent (herbivores env) @
      replicate (nat (herbivore_food_amount env)) (Food (food_nutrition env))
      = placed_objs @ obj # rest \<longrightarrow>
    place_each placed_objs (env\<lparr>matrix := create_blank_matrix (width env) (height env)\<rparr>)
      = Some (Inr env1) \<longrightarrow>
    \<not> has_space_left env1 \<longrightarrow>
      setup_initial_state env = Some (Inl SetupEnvironmentError)) \<and>
   (herbivores env \<noteq> [] \<longrightarrow> width env = height env \<longrightarrow>
    length (herbivores env) + nat (herbivore_food_amount env)
      \<le> count_cells (\<lambda>c. c = Empty) (create_blank_matrix (width env) (height env)) \<longrightarrow>
      (\<exists>rs env'. setup_initial_state (env\<lparr>draws := rs\<rparr>) = Some (Inr env')))"
proof (intro conjI allI impI)
  let ?blank = "create_blank_matrix (width env) (height env)"
  let ?env0 = "env\<lparr>matrix := ?blank\<rparr>"
  let ?objs = "map Agent (herbivores env) @
      replicate (nat (herbivore_food_amount env)) (Food (food_nutrition env))"
  {
    fix env'
    assume ok: "setup_initial_state env = Some (Inr env')"
    show ne: "herbivores env \<noteq> []"
      using ok setup_initial_state_no_herbivores [of env] by auto
    from ok setup_initial_state_places [OF ne]
    have p: "place_each ?objs ?env0 = Some (Inr env')" by simp
    note eff = place_each_effect [OF p]
    show "count_cells (\<lambda>c. c = Agent b) (matrix env') = count_list (herbivores env) b" for b
      using eff(1) [of "\<lambda>c. c = Agent b"]
      by (simp add: filter_agents filter_foods count_cells_blank count_agent)
    show "count_cells is_agent (matrix env') = length (herbivores env)"
      using eff(1) [of is_agent]
      by (simp add: filter_agents filter_foods count_cells_blank)
    show "count_cells is_food (matrix env') = nat (herbivore_food_amount env)"
      using eff(1) [of is_food]
      by (simp add: filter_agents filter_foods count_cells_blank)
    show "count_cells (\<lambda>c. c = Food (food_nutrition env)) (matrix env')
          = nat (herbivore_food_amount env)"
      using eff(1) [of "\<lambda>c. c = Food (food_nutrition env)"]
      by (simp add: filter_agents filter_foods count_cells_blank)
    show "count_cells (\<lambda>c. c = Empty) (matrix env') + length (herbivores env)
            + nat (herbivore_food_amount env) = count_cells (\<lambda>c. c = Empty) ?blank"
      using eff(1) [of "\<lambda>c. c = Empty"]
      by (simp add: filter_agents filter_foods)
    show "map length (matrix env') = map length ?blank"
      using eff(3) by simp
    show "matrix env' ! y ! x = ?blank ! y ! x \<or> ?blank ! y ! x = Empty"
      if "y < length ?blank" "x < length (?blank ! y)" for y x
      using eff(4) that by simp
  }
  show "setup_initial_state env = Some (Inl SetupEnvironmentError)" if "herbivores env = []"
    using that by (rule setup_initial_state_no_herbivores)
  show "setup_initial_state env = Some (Inl SetupEnvironmentError)"
    if "herbivores env \<noteq> []" "?objs = placed_objs @ obj # rest"
      "place_each placed_objs ?env0 = Some (Inr env1)" "\<not> has_space_left env1"
    using that setup_initial_state_places [OF that(1)] place_each_no_space [OF that(3,4), of obj rest]
    by simp
  show "\<exists>rs env'. setup_initial_state (env\<lparr>draws := rs\<rparr>) = Some (Inr env')"
    if ne: "herbivores env \<noteq> []" and sq: "width env = height env"
      and room: "length (herbivores env) + nat (herbivore_food_amount env)
                  \<le> count_cells (\<lambda>c. c = Empty) ?blank"
  proof -
    have "\<exists>rs env'. place_each ?objs (?env0\<lparr>draws := rs\<rparr>) = Some (Inr env')"
      using sq room
      by (intro place_each_lucky) (simp_all add: create_blank_matrix_length blank_rows)
    then obtain rs env' where pl: "place_each ?objs (?env0\<lparr>draws := rs\<rparr>) = Some (Inr env')"
      by blast
    have sw: "(env\<lparr>draws := rs\<rparr>)\<lparr>matrix := ?blank\<rparr> = ?env0\<lparr>draws := rs\<rparr>"
      by simp
    have "setup_initial_state (env\<lparr>draws := rs\<rparr>)
          = place_each ?objs ((env\<lparr>draws := rs\<rparr>)\<lparr>matrix := ?blank\<rparr>)"
      using setup_initial_state_places [of "env\<lparr>draws := rs\<rparr>"] ne by simp
    also have "\<dots> = place_each ?objs (?env0\<lparr>draws := rs\<rparr>)"
      by (simp only: sw)
    also note pl
    finally have "setup_initial_state (env\<lparr>draws := rs\<rparr>) = Some (Inr env')" .
    then show ?thesis by blast
  qed
qed

lemma setup_initial_state_on_return_example:
  "(\<exists>env'. setup_initial_state (example_env False [] (\<lambda>_. 5) [1, 1, 2, 1, 3, 3]) = Some (Inr env') \<and>
      matrix env' = [wall, [Boundary, Agent 0, Food 10, Empty, Boundary], vacant,
                     [Boundary, Empty, Empty, Food 10, Boundary], wall] \<and>
      count_cells is_agent (matrix env') = 1 \<and> count_cells is_food (matrix env') = 2) \<and>
   setup_initial_state (setup_herbivores [] (example_env False [] (\<lambda>_. 5) [1, 1]))
     = Some (Inl SetupEnvironmentError) \<and>
   setup_initial_state
     (setup_herbivores [0] (projr (init (example_setup 3 3 False) (\<lambda>_. 5::int) 1 [1, 1])))
     = Some (Inl SetupEnvironmentError) \<and>
   (\<exists>rs env'. setup_initial_state ((example_env False [] (\<lambda>_. 5) [])\<lparr>draws := rs\<rparr>)
      = Some (Inr env'))"
proof -
  let ?five = "example_env False [] (\<lambda>_. 5) [1, 1, 2, 1, 3, 3]"
  let ?none = "setup_herbivores [] (example_env False [] (\<lambda>_. 5) [1, 1])"
  let ?small = "setup_herbivores [0] (projr (init (example_setup 3 3 False) (\<lambda>_. 5::int) 1 [1, 1]))"
  let ?any = "example_env False [] (\<lambda>_. 5) []"
  have "map_option (map_sum id matrix) (setup_initial_state ?five)
        = Some (Inr [wall, [Boundary, Agent 0, Food 10, Empty, Boundary], vacant,
                     [Boundary, Empty, Empty, Food 10, Boundary], wall])"
    by code_simp
  then obtain env5 where r5: "setup_initial_state ?five = Some (Inr env5)"
    and m5: "matrix env5 = [wall, [Boundary, Agent 0, Food 10, Empty, Boundary], vacant,
                     [Boundary, Empty, Empty, Food 10, Boundary], wall]"
    by (cases "setup_initial_state ?five") (auto simp: map_sum_def split: sum.splits)
  have f5: "length (herbivores ?five) = 1" "nat (herbivore_food_amount ?five) = 2"
    by (simp_all add: example_env_def)
  from setup_initial_state_on_return [of ?five, THEN conjunct1, THEN spec, THEN mp, OF r5] f5
  have a: "count_cells is_agent (matrix env5) = 1 \<and> count_cells is_food (matrix env5) = 2"
    by simp
  have "herbivores ?none = []" by (simp add: setup_herbivores_def)
  with setup_initial_state_on_return [of ?none]
  have b: "setup_initial_state ?none = Some (Inl SetupEnvironmentError)" by blast
  let ?reset = "?small\<lparr>matrix := create_blank_matrix (width ?small) (height ?small)\<rparr>"
  have "map_option (map_sum id matrix) (place_each [Agent 0] ?reset)
        = Some (Inr [[Boundary, Boundary, Boundary], [Boundary, Agent 0, Boundary],
                     [Boundary, Boundary, Boundary]])"
    by code_simp
  then obtain env1 where p1: "place_each [Agent 0] ?reset = Some (Inr env1)"
    and m1: "matrix env1 = [[Boundary, Boundary, Boundary], [Boundary, Agent 0, Boundary],
                     [Boundary, Boundary, Boundary]]"
    by (cases "place_each [Agent 0] ?reset") (auto simp: map_sum_def split: sum.splits)
  have full: "\<not> has_space_left env1" by (simp add: has_space_left_def m1)
  have ne3: "herbivores ?small \<noteq> []" by (simp add: setup_herbivores_def)
  have objs: "map Agent (herbivores ?small) @
      replicate (nat (herbivore_food_amount ?small)) (Food (food_nutrition ?small))
      = [Agent 0] @ Food 10 # [Food 10]"
    by (simp add: setup_herbivores_def init_def example_setup_def numeral_2_eq_2)
  from setup_initial_state_on_return [of ?small "[Agent 0]" "Food 10" "[Food 10]" env1,
      THEN conjunct2, THEN conjunct2, THEN conjunct1, THEN mp, OF ne3, THEN mp, OF objs,
      THEN mp, OF p1, THEN mp, OF full]
  have c: "setup_initial_state ?small = Some (Inl SetupEnvironmentError)" .
  have ne: "herbivores ?any \<noteq> []" and sq: "width ?any = height ?any"
    by (simp_all add: example_env_def)
  have room: "length (herbivores ?any) + nat (herbivore_food_amount ?any)
      \<le> count_cells (\<lambda>c. c = Empty) (create_blank_matrix (width ?any) (height ?any))"
    by code_simp
  from setup_initial_state_on_return [of ?any, THEN conjunct2, THEN conjunct2, THEN conjunct2,
      THEN mp, OF ne, THEN mp, OF sq, THEN mp, OF room]
  have d: "\<exists>rs env'. setup_initial_state (?any\<lparr>draws := rs\<rparr>) = Some (Inr env')" .
  from r5 m5 a b c d show ?thesis by blast
qed

text \<open>
  Claim C7. The claim is that \<open>setup_initial_state\<close> places every registered agent and
  every food unit into a vacant interior cell. The matrix has \<open>width\<close> rows of \<open>height\<close>
  cells, while \<open>_get_random_coordinates\<close> draws \<open>x\<close> below \<open>width\<close> and \<open>y\<close> below
  \<open>height\<close> and the cell is read as \<open>matrix[y][x]\<close>. With width 3, height 4 and one
  agent, the draw \<open>x = 1\<close>, \<open>y = 3\<close> reads \<open>matrix[3]\<close>, which does not exist, and the
  call raises \<open>IndexError\<close>; with food amount 1, the draws \<open>x = 2\<close>, \<open>y = 1\<close> and then
  \<open>x = 1\<close>, \<open>y = 1\<close> make the call return with the agent in column \<open>width - 1\<close>, which is
  not an interior cell.
\<close>

theorem setup_initial_state_index_error:
  "map_option (map_sum id matrix)
     (setup_initial_state
        (setup_herbivores [0] (projr (init (example_setup 3 4 False) (\<lambda>_. 5::int) 1 [1, 3]))))
   = Some (Inl IndexError) \<and>
   map_option (map_sum id matrix)
     (setup_initial_state
        (setup_herbivores [0]
           (projr (init ((example_setup 3 4 False)\<lparr>food_herbivore_food_amount := 1\<rparr>)
              (\<lambda>_. 5::int) 1 [2, 1, 1, 1]))))
   = Some (Inr [[Boundary, Boundary, Boundary, Boundary],
                [Boundary, Food 10, Agent 0, Boundary],
                [Boundary, Boundary, Boundary, Boundary]])"
  by code_simp

section \<open>One visit of the scan\<close>

lemma asked_append [simp]: "asked (es @ fs) = asked es @ asked fs"
  by (induction es rule: asked.induct) simp_all

lemma frame_refl [simp]: "frame b n [] env env"
  by (simp add: frame_def)

lemma frame_trans:
  assumes "frame b n as1 env env1" and "frame b n as2 env1 env2"
  shows "frame b n (as1 @ as2) env env2"
proof -
  from assms(1) obtain evs1 where 1:
    "map length (matrix env1) = map length (matrix env)" "fresh env \<le> fresh env1"
    "\<forall>c. c \<noteq> b \<and> c < n \<longrightarrow> entities env1 c = entities env c"
    "\<forall>c y x. c \<noteq> b \<and> c < n \<and> y < length (matrix env) \<and> x < length (matrix env ! y) \<and>
        matrix env1 ! y ! x = Agent c \<longrightarrow> matrix env ! y ! x = Agent c"
    "calls env1 = calls env @ evs1" "\<forall>e \<in> set evs1. subject e = b" "asked evs1 = as1"
    unfolding frame_def by blast
  from assms(2) obtain evs2 where 2:
    "map length (matrix env2) = map length (matrix env1)" "fresh env1 \<le> fresh env2"
    "\<forall>c. c \<noteq> b \<and> c < n \<longrightarrow> entities env2 c = entities env1 c"
    "\<forall>c y x. c \<noteq> b \<and> c < n \<and> y < length (matrix env1) \<and> x < length (matrix env1 ! y) \<and>
        matrix env2 ! y ! x = Agent c \<longrightarrow> matrix env1 ! y ! x = Agent c"
    "calls env2 = calls env1 @ evs2" "\<forall>e \<in> set evs2. subject e = b" "asked evs2 = as2"
    unfolding frame_def by blast
  note sh = shape_lengths [OF 1(1)]
  have cells: "\<forall>c y x. c \<noteq> b \<and> c < n \<and> y < length (matrix env) \<and> x < length (matrix env ! y) \<and>
        matrix env2 ! y ! x = Agent c \<longrightarrow> matrix env ! y ! x = Agent c"
  proof (intro allI impI)
    fix c y x
    assume a: "c \<noteq> b \<and> c < n \<and> y < length (matrix env) \<and> x < length (matrix env ! y) \<and>
        matrix env2 ! y ! x = Agent c"
    with sh have "y < length (matrix env1)" "x < length (matrix env1 ! y)" by simp_all
    with a 2(4) have "matrix env1 ! y ! x = Agent c" by blast
    with a 1(4) show "matrix env ! y ! x = Agent c" by blast
  qed
  have ev: "calls env2 = calls env @ (evs1 @ evs2)" "\<forall>e \<in> set (evs1 @ evs2). subject e = b"
    "asked (evs1 @ evs2) = as1 @ as2"
    using 1 2 by auto
  show ?thesis
    unfolding frame_def
    using 1(1,2,3) 2(1,2,3) cells ev by (intro conjI exI [of _ "evs1 @ evs2"]) auto
qed

lemma frame_put_cell:
  assumes "matrix env' = put_cell k r v (matrix env)"
    and "r < length (matrix env)" "k < length (matrix env ! r)"
    and "entities env' = entities env" "fresh env' = fresh env" "calls env' = calls env"
    and "\<And>c. v = Agent c \<Longrightarrow> c = b \<or> n \<le> c"
  shows "frame b n [] env env'"
  unfolding frame_def using assms by (auto simp: nth_put_cell split: if_splits)

lemma placed_frame:
  assumes "placed obj env env'" and "\<And>c. obj = Agent c \<Longrightarrow> c = b \<or> n \<le> c"
  shows "frame b n [] env env'"
proof -
  from assms(1) obtain k r rs where b: "r < length (matrix env)" "k < length (matrix env ! r)"
    and env': "env' = env\<lparr>matrix := put_cell k r obj (matrix env), draws := rs\<rparr>"
    unfolding placed_def by auto
  show ?thesis
    by (rule frame_put_cell [OF _ b]) (use env' assms(2) in auto)
qed

lemma occupy_frame:
  assumes "occupy desired from b env = Inr env'"
  shows "frame b n [] env env'"
proof -
  from assms obtain k r x y where d: "position (matrix env) desired = Some (k, r)"
    and f: "position (matrix env) from = Some (x, y)"
    and env': "env' = env\<lparr>matrix := put_cell x y Empty (put_cell k r (Agent b) (matrix env))\<rparr>"
    by (auto simp: occupy_Inr)
  let ?env1 = "env\<lparr>matrix := put_cell k r (Agent b) (matrix env)\<rparr>"
  have 1: "frame b n [] env ?env1"
    using position_bounds [OF d] by (intro frame_put_cell [where k = k and r = r and v = "Agent b"]) auto
  have 2: "frame b n [] ?env1 env'"
    using position_bounds [OF f] env'
    by (intro frame_put_cell [where k = x and r = y and v = Empty]) auto
  from frame_trans [OF 1 2] show ?thesis by simp
qed

lemma frame_events:
  assumes "calls env' = calls env @ evs" "\<forall>e \<in> set evs. subject e = b"
    and "matrix env' = matrix env" "fresh env \<le> fresh env'"
    and "\<forall>c. c \<noteq> b \<and> c < n \<longrightarrow> entities env' c = entities env c"
  shows "frame b n (asked evs) env env'"
  unfolding frame_def using assms by auto

lemma make_move_frame:
  assumes "make_move ops mv b env = Some (Inr env')"
  shows "frame b n [] env env'"
proof (cases "get_object_coordinates env b")
  case None
  with assms show ?thesis by (simp add: make_move_def)
next
  case (Some origin)
  show ?thesis
  proof (cases "mv = STAY")
    case True
    with Some assms show ?thesis by (simp add: make_move_def)
  next
    case False
    show ?thesis
    proof (cases "offset mv")
      case None
      with Some False assms show ?thesis by (simp add: make_move_def)
    next
      case o: (Some d)
      obtain dx dy where d: "d = (dx, dy)" by (cases d)
      let ?d = "Coordinates (x_of origin + dx) (y_of origin + dy)"
      show ?thesis
      proof (cases "matrix_get (matrix env) ?d")
        case (Inl e)
        with Some False o d assms show ?thesis by (simp add: make_move_def)
      next
        case (Inr target)
        show ?thesis
        proof (cases target)
          case Boundary
          with Inr Some False o d assms show ?thesis by (simp add: make_move_def)
        next
          case (Agent c)
          with Inr Some False o d assms show ?thesis by (simp add: make_move_def)
        next
          case Empty
          with Inr Some False o d assms have "occupy ?d origin b env = Inr env'"
            by (simp add: make_move_def)
          then show ?thesis by (rule occupy_frame)
        next
          case (Food k)
          let ?env0 = "env\<lparr>entities := (entities env)(b := eat ops k (entities env b)),
                    calls := calls env @ [Ate b k]\<rparr>"
          from Food Inr Some False o d assms obtain env1 where
            oc: "occupy ?d origin b ?env0 = Inr env1"
            and r: "(if replenish_food env1
                     then set_object_randomly (Food (food_nutrition env1)) env1
                     else Some (Inr env1)) = Some (Inr env')"
            by (auto simp: make_move_def bind_run_Inr)
          have 0: "frame b n (asked [Ate b k]) env ?env0"
            by (rule frame_events) auto
          note 1 = occupy_frame [OF oc, of n]
          have 2: "frame b n [] env1 env'"
          proof (cases "replenish_food env1")
            case True
            with r have "placed (Food (food_nutrition env1)) env1 env'"
              by (simp add: set_object_randomly_placed)
            then show ?thesis by (rule placed_frame) simp
          next
            case False
            with r show ?thesis by simp
          qed
          from frame_trans [OF frame_trans [OF 0 1] 2] show ?thesis by simp
        qed
      qed
    qed
  qed
qed

lemma birth_effect:
  assumes "birth ops x y b (env, cache) = Some (Inr (env', cache'))"
  shows "frame b (fresh env) [] env env' \<and> set cache \<subseteq> set cache'"
proof (cases "herbivore_birth_after (env_setup env)")
  case False
  with assms show ?thesis by (simp add: birth_def)
next
  case True
  obtain born parent where g: "give_birth ops (entities env b) = (born, parent)"
    by (cases "give_birth ops (entities env b)")
  let ?env1 = "env\<lparr>entities := (entities env)(b := parent),
                    calls := calls env @ [AskedBirth b]\<rparr>"
  have 1: "frame b (fresh env) (asked [AskedBirth b]) env ?env1"
    by (rule frame_events) auto
  show ?thesis
  proof (cases born)
    case None
    with True g assms have "env' = ?env1" "cache' = cache"
      by (simp_all add: birth_def)
    with 1 show ?thesis by simp
  next
    case (Some state)
    let ?env2 = "?env1\<lparr>entities := (entities ?env1)(fresh ?env1 := state),
                        fresh := Suc (fresh ?env1)\<rparr>"
    from Some True g assms obtain env3 where
      near: "set_obj_near (Coordinates (int x) (int y)) (Agent (fresh ?env1)) ?env2 = Some (Inr env3)"
      and r: "env' = env3" "cache' = cache @ [fresh ?env1]"
      by (auto simp: birth_def Let_def bind_run_Inr)
    have 2: "frame b (fresh env) (asked []) ?env1 ?env2"
      by (rule frame_events) auto
    have 3: "frame b (fresh env) [] ?env2 env3"
      by (rule placed_frame [OF set_obj_near_placed [OF near]]) simp
    from frame_trans [OF frame_trans [OF 1 2] 3] r show ?thesis by auto
  qed
qed

lemma ask_and_move_effect:
  assumes "ask_and_move ops x y b (env, cache) = Some (Inr (env', cache'))"
  shows "frame b n [b] env env' \<and> cache' = cache @ [b]"
proof -
  obtain observation where "get_observation env (Some (Coordinates (int x) (int y))) = Inr observation"
    by simp
  moreover obtain mv state where "get_move ops observation (entities env b) = (mv, state)"
    by (cases "get_move ops observation (entities env b)")
  moreover define env0 where "env0 = env\<lparr>entities := (entities env)(b := state),
                       calls := calls env @ [AskedMove b]\<rparr>"
  ultimately have m: "make_move ops mv b env0 = Some (Inr env')" and c: "cache' = cache @ [b]"
    using assms by (auto simp: ask_and_move_def bind_run_Inr)
  have "frame b n (asked [AskedMove b]) env env0"
    by (rule frame_events) (auto simp: env0_def)
  from frame_trans [OF this make_move_frame [OF m]] c show ?thesis by simp
qed

lemma erase_object_nat:
  "y < length (matrix env) \<Longrightarrow> x < length (matrix env ! y) \<Longrightarrow>
   erase_object (Coordinates (int x) (int y)) env
   = Inr (env\<lparr>matrix := put_cell x y Empty (matrix env)\<rparr>)"
  by (simp add: erase_object_def matrix_set_position)

lemma visit_effect:
  assumes v: "visit ops x y (env, cache) = Some (Inr (env', cache'))"
    and y: "y < length (matrix env)" and x: "x < length (matrix env ! y)"
  shows "(\<not> is_agent (matrix env ! y ! x) \<longrightarrow> env' = env \<and> cache' = cache) \<and>
         (\<forall>b. matrix env ! y ! x = Agent b \<longrightarrow>
            (\<exists>as. frame b (fresh env) as env env' \<and> set cache \<subseteq> set cache' \<and>
               (as = [] \<or> as = [b] \<and> b \<notin> set cache \<and> b \<in> set cache') \<and>
               (health ops (entities env b) = 0 \<longrightarrow>
                  env' = env\<lparr>matrix := put_cell x y Empty (matrix env)\<rparr>)))"
proof -
  have other: "env' = env \<and> cache' = cache" if "\<not> is_agent (matrix env ! y ! x)"
    using that v visit_other [of env y x ops cache] by simp
  have agent: "\<exists>as. frame b (fresh env) as env env' \<and> set cache \<subseteq> set cache' \<and>
               (as = [] \<or> as = [b] \<and> b \<notin> set cache \<and> b \<in> set cache') \<and>
               (health ops (entities env b) = 0 \<longrightarrow>
                  env' = env\<lparr>matrix := put_cell x y Empty (matrix env)\<rparr>)"
    if cell: "matrix env ! y ! x = Agent b" for b
  proof (cases "health ops (entities env b) = 0")
    case True
    with v cell erase_object_nat [OF y x]
    have e: "env' = env\<lparr>matrix := put_cell x y Empty (matrix env)\<rparr>" and c: "cache' = cache"
      by (simp_all add: visit_def)
    have "frame b (fresh env) [] env env'"
      by (rule frame_put_cell [OF _ y x, where v = Empty]) (auto simp: e)
    moreover note True
    ultimately show ?thesis using c e by auto
  next
    case alive: False
    show ?thesis
    proof (cases "b \<in> set cache")
      case True
      with v cell alive have "env' = env" "cache' = cache"
        by (simp_all add: visit_def)
      with alive show ?thesis by auto
    next
      case False
      with v cell alive obtain env1 cache1 where
        bi: "birth ops x y b (env, cache) = Some (Inr (env1, cache1))"
        and am: "ask_and_move ops x y b (env1, cache1) = Some (Inr (env', cache'))"
        by (auto simp: visit_def bind_run_Inr)
      note be = birth_effect [OF bi] and ae = ask_and_move_effect [OF am, of "fresh env"]
      from frame_trans [OF be [THEN conjunct1] ae [THEN conjunct1]]
      have "frame b (fresh env) [b] env env'" by simp
      moreover from be ae have "set cache \<subseteq> set cache'" "b \<in> set cache'" by auto
      ultimately show ?thesis using False alive by auto
    qed
  qed
  from other agent show ?thesis by blast
qed

lemma scan_row_invariant:
  assumes step: "\<And>V x s s'. x \<in> set xs \<Longrightarrow> I V s \<Longrightarrow> visit ops x y s = Some (Inr s') \<Longrightarrow>
                   I (insert (x, y) V) s'"
    and "I V s" and "scan_row ops y xs s = Some (Inr s')"
  shows "I (V \<union> (\<lambda>x. (x, y)) ` set xs) s'"
  using assms
proof (induction xs arbitrary: V s)
  case Nil
  then show ?case by simp
next
  case (Cons x xs)
  from Cons.prems(3) obtain s1 where v: "visit ops x y s = Some (Inr s1)"
    and r: "scan_row ops y xs s1 = Some (Inr s')"
    by (auto simp: bind_run_Inr)
  have 1: "I (insert (x, y) V) s1"
    using Cons.prems(1) [OF _ Cons.prems(2) v] by simp
  have "I (insert (x, y) V \<union> (\<lambda>x. (x, y)) ` set xs) s'"
    by (rule Cons.IH [OF _ 1 r]) (rule Cons.prems(1), auto)
  then show ?case by simp
qed

lemma scan_rows_invariant:
  assumes step: "\<And>V x y s s'. y < length sh \<Longrightarrow> x < sh ! y \<Longrightarrow> I V s \<Longrightarrow>
                   visit ops x y s = Some (Inr s') \<Longrightarrow> I (insert (x, y) V) s'"
    and shape: "\<And>V s. I V s \<Longrightarrow> map length (matrix (fst s)) = sh"
    and "I V s" and "\<forall>y \<in> set ys. y < length sh" and "scan_rows ops ys s = Some (Inr s')"
  shows "I (V \<union> {(x, y). y \<in> set ys \<and> x < sh ! y}) s'"
  using assms(3-)
proof (induction ys arbitrary: V s)
  case Nil
  then show ?case by simp
next
  case (Cons y ys)
  from Cons.prems(2) have y: "y < length sh" by simp
  from shape [OF Cons.prems(1)] y have len: "length (matrix (fst s) ! y) = sh ! y"
    by (metis length_map nth_map)
  from Cons.prems(3) len obtain s1 where row: "scan_row ops y [0..<sh ! y] s = Some (Inr s1)"
    and r: "scan_rows ops ys s1 = Some (Inr s')"
    by (auto simp: bind_run_Inr)
  have 1: "I (V \<union> (\<lambda>x. (x, y)) ` set [0..<sh ! y]) s1"
    by (rule scan_row_invariant [where I = I, OF _ Cons.prems(1) row]) (rule step [OF y], auto)
  have "I (V \<union> (\<lambda>x. (x, y)) ` set [0..<sh ! y] \<union> {(x, y). y \<in> set ys \<and> x < sh ! y}) s'"
    using Cons.prems(2) by (intro Cons.IH [OF 1 _ r]) simp
  moreover have "V \<union> (\<lambda>x. (x, y)) ` set [0..<sh ! y] \<union> {(x, y). y \<in> set ys \<and> x < sh ! y}
                 = V \<union> {(x, y'). y' \<in> set (y # ys) \<and> x < sh ! y'}"
    by auto
  ultimately show ?case by simp
qed

lemma get_next_state_invariant:
  assumes step: "\<And>V x y s s'. y < length (matrix env) \<Longrightarrow> x < length (matrix env ! y) \<Longrightarrow>
                   I V s \<Longrightarrow> visit ops x y s = Some (Inr s') \<Longrightarrow> I (insert (x, y) V) s'"
    and shape: "\<And>V s. I V s \<Longrightarrow> map length (matrix (fst s)) = map length (matrix env)"
    and init: "I {} (env, [])" and "get_next_state ops env = Some (Inr env')"
  shows "\<exists>cache. I {(x, y). y < length (matrix env) \<and> x < length (matrix env ! y)} (env', cache)"
proof -
  from assms(4) obtain cache where
    r: "scan_rows ops [0..<length (matrix env)] (env, []) = Some (Inr (env', cache))"
    by (auto simp: get_next_state_def bind_run_Inr)
  have "I ({} \<union> {(x, y). y \<in> set [0..<length (matrix env)] \<and> x < map length (matrix env) ! y})
          (env', cache)"
    by (rule scan_rows_invariant [where I = I and sh = "map length (matrix env)", OF _ shape init _ r])
      (use step in auto)
  moreover have "{(x, y). y \<in> set [0..<length (matrix env)] \<and> x < map length (matrix env) ! y}
                 = {(x, y). y < length (matrix env) \<and> x < length (matrix env ! y)}"
    by auto
  ultimately show ?thesis by auto
qed

section \<open>The sweep of one tick\<close>

lemma tick_events_append: "calls env' = calls env @ evs \<Longrightarrow> tick_events env env' = evs"
  by (simp add: tick_events_def)

lemma frameD:
  assumes "frame b n as env env'"
  shows "map length (matrix env') = map length (matrix env)"
    and "fresh env \<le> fresh env'"
    and "c \<noteq> b \<Longrightarrow> c < n \<Longrightarrow> entities env' c = entities env c"
    and "c \<noteq> b \<Longrightarrow> c < n \<Longrightarrow> y < length (matrix env) \<Longrightarrow> x < length (matrix env ! y) \<Longrightarrow>
           matrix env' ! y ! x = Agent c \<Longrightarrow> matrix env ! y ! x = Agent c"
    and "\<exists>evs. calls env' = calls env @ evs \<and> (\<forall>e \<in> set evs. subject e = b) \<and> asked evs = as"
  using assms unfolding frame_def by blast+

lemma dead_agent_sweep:
  fixes env :: "'s environment"
  assumes dead: "health ops (entities env a) = 0" and old: "a < fresh env"
    and tick: "get_next_state ops env = Some (Inr env')"
  shows "(\<forall>y x. y < length (matrix env') \<longrightarrow> x < length (matrix env' ! y) \<longrightarrow>
            matrix env' ! y ! x \<noteq> Agent a) \<and>
         (\<forall>e \<in> set (tick_events env env'). subject e \<noteq> a)"
proof -
  define I where "I = (\<lambda>V (s :: 's environment \<times> nat list).
     map length (matrix (fst s)) = map length (matrix env) \<and>
     health ops (entities (fst s) a) = 0 \<and> a < fresh (fst s) \<and>
     (\<forall>(x, y) \<in> V. y < length (matrix env) \<and> x < length (matrix env ! y) \<and>
        matrix (fst s) ! y ! x \<noteq> Agent a) \<and>
     (\<exists>evs. calls (fst s) = calls env @ evs \<and> (\<forall>e \<in> set evs. subject e \<noteq> a)))"
  have step: "I (insert (x, y) V) s'"
    if y: "y < length (matrix env)" and x: "x < length (matrix env ! y)"
      and inv: "I V s" and v: "visit ops x y s = Some (Inr s')" for V x y s s'
  proof -
    obtain env1 cache where s: "s = (env1, cache)" by (cases s)
    obtain env2 cache' where s': "s' = (env2, cache')" by (cases s')
    from inv s obtain evs where sh: "map length (matrix env1) = map length (matrix env)"
      and h: "health ops (entities env1 a) = 0" and f: "a < fresh env1"
      and cells: "\<And>x y. (x, y) \<in> V \<Longrightarrow> y < length (matrix env) \<and> x < length (matrix env ! y) \<and>
                    matrix env1 ! y ! x \<noteq> Agent a"
      and ev: "calls env1 = calls env @ evs" "\<forall>e \<in> set evs. subject e \<noteq> a"
      unfolding I_def by auto
    note l = shape_lengths [OF sh]
    from y x l have y1: "y < length (matrix env1)" and x1: "x < length (matrix env1 ! y)"
      by simp_all
    note eff = visit_effect [OF v [unfolded s s'] y1 x1]
    show ?thesis
    proof (cases "matrix env1 ! y ! x")
      case (Agent b)
      with eff obtain as where fr: "frame b (fresh env1) as env1 env2"
        and z: "health ops (entities env1 b) = 0 \<longrightarrow>
                  env2 = env1\<lparr>matrix := put_cell x y Empty (matrix env1)\<rparr>"
        by blast
      show ?thesis
      proof (cases "b = a")
        case True
        with z h have e2: "env2 = env1\<lparr>matrix := put_cell x y Empty (matrix env1)\<rparr>" by simp
        have "matrix env2 ! v ! u \<noteq> Agent a"
          if "v < length (matrix env)" "u < length (matrix env ! v)"
            "(u, v) = (x, y) \<or> matrix env1 ! v ! u \<noteq> Agent a" for u v
          using that y1 x1 by (auto simp: e2 nth_put_cell)
        with cells y x have "\<forall>(u, v) \<in> insert (x, y) V. v < length (matrix env) \<and>
            u < length (matrix env ! v) \<and> matrix env2 ! v ! u \<noteq> Agent a"
          by blast
        with sh h f ev show ?thesis
          unfolding I_def s' by (simp add: e2)
      next
        case False
        note 2 = frameD [OF fr]
        from 2(5) obtain evs2 where e2: "calls env2 = calls env1 @ evs2"
          "\<forall>e \<in> set evs2. subject e = b"
          by blast
        have keep: "matrix env2 ! v ! u \<noteq> Agent a"
          if "v < length (matrix env)" "u < length (matrix env ! v)"
            "matrix env1 ! v ! u \<noteq> Agent a" for u v
          using that 2(4) [of a v u] False f l by auto
        from Agent False have "matrix env1 ! y ! x \<noteq> Agent a" by simp
        with cells y x keep have c2: "\<forall>(u, v) \<in> insert (x, y) V. v < length (matrix env) \<and>
            u < length (matrix env ! v) \<and> matrix env2 ! v ! u \<noteq> Agent a"
          by blast
        have "calls env2 = calls env @ (evs @ evs2)"
          "\<forall>e \<in> set (evs @ evs2). subject e \<noteq> a"
          using ev e2 False by auto
        then have ev2: "\<exists>evs. calls env2 = calls env @ evs \<and> (\<forall>e \<in> set evs. subject e \<noteq> a)"
          by blast
        have h2: "health ops (entities env2 a) = 0" and f2: "a < fresh env2"
          using 2(2) 2(3) [of a] False f h by auto
        have sh2: "map length (matrix env2) = map length (matrix env)"
          using sh 2(1) by simp
        show ?thesis
          unfolding I_def s' fst_conv by (intro conjI sh2 h2 f2 c2 ev2)
      qed
    next
      case Boundary
      with eff have "env2 = env1" by simp
      with Boundary inv s show ?thesis
        unfolding I_def s' using y x by auto
    next
      case Empty
      with eff have "env2 = env1" by simp
      with Empty inv s show ?thesis
        unfolding I_def s' using y x by auto
    next
      case (Food k)
      with eff have "env2 = env1" by simp
      with Food inv s show ?thesis
        unfolding I_def s' using y x by auto
    qed
  qed
  have shape: "map length (matrix (fst s)) = map length (matrix env)" if "I V s" for V s
    using that by (simp add: I_def)
  have init: "I {} (env, [])"
    using dead old by (simp add: I_def)
  have "\<exists>cache. I {(x, y). y < length (matrix env) \<and> x < length (matrix env ! y)} (env', cache)"
  proof (rule get_next_state_invariant [where I = I and ops = ops])
    show "I (insert (x, y) V) s'"
      if "y < length (matrix env)" "x < length (matrix env ! y)" "I V s"
        "visit ops x y s = Some (Inr s')" for V x y s s'
      using that by (rule step)
    show "map length (matrix (fst s)) = map length (matrix env)" if "I V s" for V s
      using that by (rule shape)
    show "I {} (env, [])" by (rule init)
    show "get_next_state ops env = Some (Inr env')" by (rule tick)
  qed
  then obtain cache where
    inv: "I {(x, y). y < length (matrix env) \<and> x < length (matrix env ! y)} (env', cache)"
    by blast
  from inv have sh: "map length (matrix env') = map length (matrix env)"
    unfolding I_def fst_conv by (rule conjunct1)
  from inv have "\<forall>(x, y) \<in> {(x, y). y < length (matrix env) \<and> x < length (matrix env ! y)}.
      y < length (matrix env) \<and> x < length (matrix env ! y) \<and> matrix env' ! y ! x \<noteq> Agent a"
    unfolding I_def fst_conv by (elim conjE)
  then have cells: "matrix env' ! y ! x \<noteq> Agent a"
    if "y < length (matrix env)" "x < length (matrix env ! y)" for x y
    using that by blast
  from inv have "\<exists>evs. calls env' = calls env @ evs \<and> (\<forall>e \<in> set evs. subject e \<noteq> a)"
    unfolding I_def fst_conv by (elim conjE)
  then obtain evs where ev: "calls env' = calls env @ evs" "\<forall>e \<in> set evs. subject e \<noteq> a"
    by blast
  note l = shape_lengths [OF sh]
  from cells l have "\<forall>y x. y < length (matrix env') \<longrightarrow> x < length (matrix env' ! y) \<longrightarrow>
            matrix env' ! y ! x \<noteq> Agent a"
    by simp
  with ev tick_events_append [OF ev(1)] show ?thesis by simp
qed

lemma asked_once_sweep:
  fixes env :: "'s environment"
  assumes tick: "get_next_state ops env = Some (Inr env')"
  shows "distinct (asked (tick_events env env'))"
proof -
  define I where "I = (\<lambda>(V :: (nat \<times> nat) set) (s :: 's environment \<times> nat list).
     map length (matrix (fst s)) = map length (matrix env) \<and>
     (\<exists>evs. calls (fst s) = calls env @ evs \<and> distinct (asked evs) \<and>
            set (asked evs) \<subseteq> set (snd s)))"
  have step: "I (insert (x, y) V) s'"
    if y: "y < length (matrix env)" and x: "x < length (matrix env ! y)"
      and inv: "I V s" and v: "visit ops x y s = Some (Inr s')" for V x y s s'
  proof -
    obtain env1 cache where s: "s = (env1, cache)" by (cases s)
    obtain env2 cache' where s': "s' = (env2, cache')" by (cases s')
    from inv s obtain evs where sh: "map length (matrix env1) = map length (matrix env)"
      and ev: "calls env1 = calls env @ evs" "distinct (asked evs)" "set (asked evs) \<subseteq> set cache"
      unfolding I_def by auto
    note l = shape_lengths [OF sh]
    from y x l have y1: "y < length (matrix env1)" and x1: "x < length (matrix env1 ! y)"
      by simp_all
    note eff = visit_effect [OF v [unfolded s s'] y1 x1]
    show ?thesis
    proof (cases "is_agent (matrix env1 ! y ! x)")
      case False
      with eff have "env2 = env1" "cache' = cache" by simp_all
      with inv s show ?thesis unfolding I_def s' by simp
    next
      case True
      then obtain b where "matrix env1 ! y ! x = Agent b"
        by (cases "matrix env1 ! y ! x") simp_all
      with eff obtain as where fr: "frame b (fresh env1) as env1 env2"
        and sub: "set cache \<subseteq> set cache'"
        and as: "as = [] \<or> as = [b] \<and> b \<notin> set cache \<and> b \<in> set cache'"
        by blast
      note 2 = frameD [OF fr]
      from 2(5) obtain evs2 where e2: "calls env2 = calls env1 @ evs2" "asked evs2 = as"
        by blast
      have c: "calls env2 = calls env @ (evs @ evs2)"
        using ev(1) e2(1) by simp
      have d: "distinct (asked (evs @ evs2))"
        using ev(2,3) e2(2) as by auto
      have i: "set (asked (evs @ evs2)) \<subseteq> set cache'"
        using ev(3) e2(2) as sub by auto
      have sh2: "map length (matrix env2) = map length (matrix env)"
        using sh 2(1) by simp
      from c d i have "\<exists>evs. calls env2 = calls env @ evs \<and> distinct (asked evs) \<and>
            set (asked evs) \<subseteq> set cache'"
        by blast
      with sh2 show ?thesis unfolding I_def s' by simp
    qed
  qed
  have "\<exists>cache. I {(x, y). y < length (matrix env) \<and> x < length (matrix env ! y)} (env', cache)"
  proof (rule get_next_state_invariant [where I = I and ops = ops])
    show "I (insert (x, y) V) s'"
      if "y < length (matrix env)" "x < length (matrix env ! y)" "I V s"
        "visit ops x y s = Some (Inr s')" for V x y s s'
      using that by (rule step)
    show "map length (matrix (fst s)) = map length (matrix env)" if "I V s" for V s
      using that by (simp add: I_def)
    show "I {} (env, [])" by (simp add: I_def)
    show "get_next_state ops env = Some (Inr env')" by (rule tick)
  qed
  then obtain evs where "calls env' = calls env @ evs" "distinct (asked evs)"
    unfolding I_def by auto
  then show ?thesis by (simp add: tick_events_append)
qed

text \<open>
  Claim C6. For an agent that exists at the start of a tick with health 0: when the
  sweep of that tick completes, the agent is in no cell of the matrix, and the calls
  made during the tick contain no call of its \<open>get_move\<close> and none of its \<open>give_birth\<close>.
\<close>

theorem dead_agent_removed:
  assumes "health ops (entities env a) = 0" and "a < fresh env"
    and "get_next_state ops env = Some (Inr env')"
  shows "(\<forall>row \<in> set (matrix env'). Agent a \<notin> set row) \<and>
         get_object_coordinates env' a = None \<and>
         AskedMove a \<notin> set (tick_events env env') \<and>
         AskedBirth a \<notin> set (tick_events env env')"
proof -
  note sweep = dead_agent_sweep [OF assms]
  have cells: "\<forall>row \<in> set (matrix env'). Agent a \<notin> set row"
  proof (intro ballI notI)
    fix row assume "row \<in> set (matrix env')" "Agent a \<in> set row"
    then obtain y x where "y < length (matrix env')" "x < length (matrix env' ! y)"
      "matrix env' ! y ! x = Agent a"
      by (metis in_set_conv_nth)
    with sweep show False by blast
  qed
  then have "get_object_coordinates env' a = None"
    by (simp add: get_object_coordinates_def locate_None)
  moreover have "AskedMove a \<notin> set (tick_events env env')"
    "AskedBirth a \<notin> set (tick_events env env')"
    using sweep by force+
  ultimately show ?thesis using cells by simp
qed

theorem dead_agent_removed_witness:
  "\<exists>env'. get_next_state (fixed_policy LEFT)
       (example_env False [wall, [Boundary, Agent 0, Empty, Agent 1, Boundary], vacant, vacant, wall]
          (\<lambda>i. if i = 0 then 0 else 5) []) = Some (Inr env') \<and>
     matrix env' = [wall, [Boundary, Empty, Agent 1, Empty, Boundary], vacant, vacant, wall] \<and>
     get_object_coordinates env' 0 = None \<and>
     AskedMove 0 \<notin> set (calls env') \<and> AskedBirth 0 \<notin> set (calls env')"
proof -
  let ?env = "example_env False
       [wall, [Boundary, Agent 0, Empty, Agent 1, Boundary], vacant, vacant, wall]
          (\<lambda>i. if i = 0 then 0 else 5) []"
  have "map_option (map_sum id matrix) (get_next_state (fixed_policy LEFT) ?env)
        = Some (Inr [wall, [Boundary, Empty, Agent 1, Empty, Boundary], vacant, vacant, wall])"
    by code_simp
  then obtain env' where r: "get_next_state (fixed_policy LEFT) ?env = Some (Inr env')"
    and m: "matrix env' = [wall, [Boundary, Empty, Agent 1, Empty, Boundary], vacant, vacant, wall]"
    by (cases "get_next_state (fixed_policy LEFT) ?env") (auto simp: map_sum_def split: sum.splits)
  have dead: "health (fixed_policy LEFT) (entities ?env 0) = 0" and old: "0 < fresh ?env"
    and c: "calls ?env = []"
    by (simp_all add: fixed_policy_def example_env_def)
  from dead_agent_removed [OF dead old r] c r m show ?thesis
    by (simp add: tick_events_def)
qed

subsection \<open>The scan as a sequence of visits\<close>

lemma bind_run_cong:
  "(\<And>v. r = Some (Inr v) \<Longrightarrow> f v = g v) \<Longrightarrow> bind_run r f = bind_run r g"
  by (auto simp: bind_run_def split: option.splits sum.splits)

lemma bind_run_assoc:
  "bind_run (bind_run r f) g = bind_run r (\<lambda>v. bind_run (f v) g)"
  by (auto simp: bind_run_def split: option.splits sum.splits)

lemma visits_append:
  "visits ops (ps @ qs) s = bind_run (visits ops ps s) (visits ops qs)"
proof (induction ps arbitrary: s)
  case Nil
  then show ?case by simp
next
  case (Cons p ps)
  have "bind_run (visit ops (fst p) (snd p) s) (visits ops (ps @ qs))
        = bind_run (visit ops (fst p) (snd p) s) (\<lambda>v. bind_run (visits ops ps v) (visits ops qs))"
    by (rule bind_run_cong) (rule Cons.IH)
  then show ?case by (simp add: bind_run_assoc)
qed

lemma scan_row_visits: "scan_row ops y xs s = visits ops (map (\<lambda>x. (x, y)) xs) s"
proof (induction xs arbitrary: s)
  case Nil
  then show ?case by simp
next
  case (Cons x xs)
  have "bind_run (visit ops x y s) (scan_row ops y xs)
        = bind_run (visit ops x y s) (visits ops (map (\<lambda>x. (x, y)) xs))"
    by (rule bind_run_cong) (rule Cons.IH)
  then show ?case by simp
qed

lemma visit_shape:
  assumes "visit ops x y s = Some (Inr s')"
    and "y < length (matrix (fst s))" "x < length (matrix (fst s) ! y)"
  shows "map length (matrix (fst s')) = map length (matrix (fst s))"
proof -
  obtain env cache where s: "s = (env, cache)" by (cases s)
  obtain env' cache' where s': "s' = (env', cache')" by (cases s')
  note eff = visit_effect [OF assms(1) [unfolded s s']] 
  from assms(2,3) s have r: "y < length (matrix env)" "x < length (matrix env ! y)" by simp_all
  show ?thesis
  proof (cases "matrix env ! y ! x")
    case (Agent b)
    with eff [OF r] obtain as where "frame b (fresh env) as env env'" by blast
    from frameD(1) [OF this] s s' show ?thesis by simp
  next
    case Boundary
    with eff [OF r] s s' show ?thesis by simp
  next
    case Empty
    with eff [OF r] s s' show ?thesis by simp
  next
    case (Food k)
    with eff [OF r] s s' show ?thesis by simp
  qed
qed

lemma visits_invariant:
  assumes step: "\<And>p s s'. p \<in> set ps \<Longrightarrow> I s \<Longrightarrow> visit ops (fst p) (snd p) s = Some (Inr s') \<Longrightarrow> I s'"
    and "I s" and "visits ops ps s = Some (Inr s')"
  shows "I s'"
  using assms
proof (induction ps arbitrary: s)
  case Nil
  then show ?case by simp
next
  case (Cons p ps)
  from Cons.prems(3) obtain s1 where v: "visit ops (fst p) (snd p) s = Some (Inr s1)"
    and r: "visits ops ps s1 = Some (Inr s')"
    by (auto simp: bind_run_Inr)
  have 1: "I s1" using Cons.prems(1) [OF _ Cons.prems(2) v] by simp
  show ?case by (rule Cons.IH [OF _ 1 r]) (rule Cons.prems(1), auto)
qed

lemma visits_shape:
  assumes "visits ops ps s = Some (Inr s')"
    and "\<forall>p \<in> set ps. snd p < length sh \<and> fst p < sh ! snd p"
    and "map length (matrix (fst s)) = sh"
  shows "map length (matrix (fst s')) = sh"
proof (rule visits_invariant [where I = "\<lambda>s. map length (matrix (fst s)) = sh" and ps = ps and ops = ops])
  show "map length (matrix (fst t')) = sh"
    if "p \<in> set ps" "map length (matrix (fst t)) = sh"
      "visit ops (fst p) (snd p) t = Some (Inr t')" for p t t'
  proof -
    from that(1) assms(2) have 1: "snd p < length sh" "fst p < sh ! snd p" by auto
    from that(2) have l: "length (matrix (fst t)) = length sh" by (metis length_map)
    with 1 have 2: "snd p < length (matrix (fst t))" by simp
    from that(2) 2 have "sh ! snd p = length (matrix (fst t) ! snd p)" by (metis nth_map)
    with 1 have 3: "fst p < length (matrix (fst t) ! snd p)" by simp
    from visit_shape [OF that(3) 2 3] that(2) show ?thesis by simp
  qed
  show "map length (matrix (fst s)) = sh" by (rule assms(3))
  show "visits ops ps s = Some (Inr s')" by (rule assms(1))
qed


lemma scan_rows_visits:
  assumes "map length (matrix (fst s)) = sh" and "\<forall>y \<in> set ys. y < length sh"
  shows "scan_rows ops ys s
         = visits ops (concat (map (\<lambda>y. map (\<lambda>x. (x, y)) [0..<sh ! y]) ys)) s"
  using assms
proof (induction ys arbitrary: s)
  case Nil
  then show ?case by simp
next
  case (Cons y ys)
  let ?row = "map (\<lambda>x. (x, y)) [0..<sh ! y]"
  let ?rest = "concat (map (\<lambda>y. map (\<lambda>x. (x, y)) [0..<sh ! y]) ys)"
  from Cons.prems have y: "y < length sh" by simp
  from Cons.prems(1) y have len: "length (matrix (fst s) ! y) = sh ! y"
    by (metis length_map nth_map)
  have "bind_run (visits ops ?row s) (scan_rows ops ys)
        = bind_run (visits ops ?row s) (visits ops ?rest)"
  proof (rule bind_run_cong)
    fix s1 assume r: "visits ops ?row s = Some (Inr s1)"
    have "map length (matrix (fst s1)) = sh"
      using y by (intro visits_shape [OF r _ Cons.prems(1)]) simp
    then show "scan_rows ops ys s1 = visits ops ?rest s1"
      using Cons.prems(2) by (intro Cons.IH) simp_all
  qed
  then show ?case
    by (simp add: len scan_row_visits visits_append)
qed

lemma scan_order_shape:
  "scan_order m = concat (map (\<lambda>y. map (\<lambda>x. (x, y)) [0..<map length m ! y]) [0..<length m])"
  unfolding scan_order_def by (rule arg_cong [where f = concat]) simp

lemma get_next_state_visits:
  "get_next_state ops env
   = bind_run (visits ops (scan_order (matrix env)) (env, [])) (\<lambda>s. Some (Inr (fst s)))"
proof -
  have "scan_rows ops [0..<length (matrix env)] (env, [])
        = visits ops (scan_order (matrix env)) (env, [])"
    unfolding scan_order_shape
    by (rule scan_rows_visits) simp_all
  then show ?thesis by (simp add: get_next_state_def)
qed

lemma scan_order_upto:
  "n \<le> length m \<Longrightarrow>
   distinct (concat (map (\<lambda>y. map (\<lambda>x. (x, y)) [0..<length (m ! y)]) [0..<n])) \<and>
   set (concat (map (\<lambda>y. map (\<lambda>x. (x, y)) [0..<length (m ! y)]) [0..<n]))
     = {(x, y). y < n \<and> x < length (m ! y)}"
proof (induction n)
  case 0
  then show ?case by simp
next
  case (Suc n)
  then have ih: "distinct (concat (map (\<lambda>y. map (\<lambda>x. (x, y)) [0..<length (m ! y)]) [0..<n]))"
    "set (concat (map (\<lambda>y. map (\<lambda>x. (x, y)) [0..<length (m ! y)]) [0..<n]))
     = {(x, y). y < n \<and> x < length (m ! y)}"
    by simp_all
  have d: "distinct (map (\<lambda>x. (x, n)) [0..<length (m ! n)])"
    by (simp add: distinct_map inj_on_def)
  have s: "set (map (\<lambda>x. (x, n)) [0..<length (m ! n)]) = {(x, y). y = n \<and> x < length (m ! y)}"
    by auto
  have "{(x, y). y < n \<and> x < length (m ! y)} \<inter> {(x, y). y = n \<and> x < length (m ! y)} = {}"
    by auto
  moreover have "{(x, y). y < n \<and> x < length (m ! y)} \<union> {(x, y). y = n \<and> x < length (m ! y)}
                 = {(x, y). y < Suc n \<and> x < length (m ! y)}"
    by auto
  ultimately show ?case
    using ih d s by (simp del: set_map set_upt)
qed

lemma distinct_scan_order: "distinct (scan_order m)"
  and set_scan_order: "set (scan_order m) = {(x, y). y < length m \<and> x < length (m ! y)}"
  using scan_order_upto [of "length m" m] by (simp_all add: scan_order_def)


lemma placed_keeps:
  assumes "placed obj env env'" "y < length (matrix env)" "x < length (matrix env ! y)"
    and "matrix env ! y ! x \<noteq> Empty"
  shows "matrix env' ! y ! x = matrix env ! y ! x"
  using placed_cells [OF assms(1-3)] assms(4) by simp

lemma occupy_keeps:
  assumes oc: "occupy desired origin b env = Inr env'"
    and f: "position (matrix env) origin = Some (fx, fy)" "matrix env ! fy ! fx = Agent b"
    and d: "matrix_get (matrix env) desired = Inr t" "t \<noteq> Agent a"
    and c: "y < length (matrix env)" "x < length (matrix env ! y)" "matrix env ! y ! x = Agent a"
    and ne: "a \<noteq> b"
  shows "matrix env' ! y ! x = Agent a"
proof -
  from d(1) obtain k r where p: "position (matrix env) desired = Some (k, r)"
    and t: "matrix env ! r ! k = t"
    by (auto simp: matrix_get_Inr)
  from oc f(1) p have env': "env' = env\<lparr>matrix := put_cell fx fy Empty (put_cell k r (Agent b) (matrix env))\<rparr>"
    by (simp add: occupy_Inr)
  from t d(2) c(3) have 1: "\<not> (y = r \<and> x = k)" by auto
  from f(2) c(3) ne have 2: "\<not> (y = fy \<and> x = fx)" by auto
  from position_bounds [OF p] position_bounds [OF f(1)] 1 2 c(3) show ?thesis
    by (auto simp: env' nth_put_cell)
qed

lemma make_move_keeps:
  assumes mm: "make_move ops mv b env = Some (Inr env')"
    and c: "y < length (matrix env)" "x < length (matrix env ! y)" "matrix env ! y ! x = Agent a"
    and ne: "a \<noteq> b"
  shows "matrix env' ! y ! x = Agent a"
proof (cases "get_object_coordinates env b")
  case None
  with mm show ?thesis by (simp add: make_move_def)
next
  case (Some origin)
  from get_object_coordinates_Some [OF Some] obtain fx fy where
    f: "position (matrix env) origin = Some (fx, fy)" "matrix env ! fy ! fx = Agent b"
    by auto
  show ?thesis
  proof (cases "mv = STAY")
    case True
    with Some mm c show ?thesis by (simp add: make_move_def)
  next
    case False
    show ?thesis
    proof (cases "offset mv")
      case None
      with Some False mm show ?thesis by (simp add: make_move_def)
    next
      case o: (Some d)
      obtain dx dy where d: "d = (dx, dy)" by (cases d)
      let ?d = "Coordinates (x_of origin + dx) (y_of origin + dy)"
      show ?thesis
      proof (cases "matrix_get (matrix env) ?d")
        case (Inl e)
        with Some False o d mm show ?thesis by (simp add: make_move_def)
      next
        case (Inr target)
        show ?thesis
        proof (cases target)
          case Boundary
          with Inr Some False o d mm c show ?thesis by (simp add: make_move_def)
        next
          case (Agent c')
          with Inr Some False o d mm c show ?thesis by (simp add: make_move_def)
        next
          case Empty
          with Inr Some False o d mm have oc: "occupy ?d origin b env = Inr env'"
            by (simp add: make_move_def)
          from Inr Empty have t: "matrix_get (matrix env) ?d = Inr Empty" "Empty \<noteq> Agent a"
            by simp_all
          show ?thesis by (rule occupy_keeps [OF oc f t c ne])
        next
          case (Food k)
          let ?env0 = "env\<lparr>entities := (entities env)(b := eat ops k (entities env b)),
                    calls := calls env @ [Ate b k]\<rparr>"
          from Food Inr Some False o d mm obtain env1 where
            oc: "occupy ?d origin b ?env0 = Inr env1"
            and r: "(if replenish_food env1
                     then set_object_randomly (Food (food_nutrition env1)) env1
                     else Some (Inr env1)) = Some (Inr env')"
            by (auto simp: make_move_def bind_run_Inr)
          from Inr Food have t: "matrix_get (matrix ?env0) ?d = Inr (Food k)" "Food k \<noteq> Agent a"
            by simp_all
          have 1: "matrix env1 ! y ! x = Agent a"
            by (rule occupy_keeps [OF oc _ _ t _ _ _ ne]) (use f c in simp_all)
          from frameD(1) [OF occupy_frame [OF oc, of 0]] have sh: "map length (matrix env1) = map length (matrix env)"
            by simp
          note l = shape_lengths [OF sh]
          show ?thesis
          proof (cases "replenish_food env1")
            case True
            with r have "placed (Food (food_nutrition env1)) env1 env'"
              by (simp add: set_object_randomly_placed)
            from placed_keeps [OF this, of y x] l c(1,2) 1 show ?thesis by simp
          next
            case False
            with r 1 show ?thesis by simp
          qed
        qed
      qed
    qed
  qed
qed

lemma birth_keeps:
  assumes bi: "birth ops x0 y0 b (env, cache) = Some (Inr (env', cache'))"
    and c: "y < length (matrix env)" "x < length (matrix env ! y)" "matrix env ! y ! x = Agent a"
  shows "matrix env' ! y ! x = Agent a"
proof (cases "herbivore_birth_after (env_setup env)")
  case False
  with bi c show ?thesis by (simp add: birth_def)
next
  case True
  obtain born parent where g: "give_birth ops (entities env b) = (born, parent)"
    by (cases "give_birth ops (entities env b)")
  let ?env1 = "env\<lparr>entities := (entities env)(b := parent),
                    calls := calls env @ [AskedBirth b]\<rparr>"
  show ?thesis
  proof (cases born)
    case None
    with True g bi have "env' = ?env1" by (simp add: birth_def)
    with c show ?thesis by simp
  next
    case (Some state)
    let ?env2 = "?env1\<lparr>entities := (entities ?env1)(fresh ?env1 := state),
                        fresh := Suc (fresh ?env1)\<rparr>"
    from Some True g bi have
      near: "set_obj_near (Coordinates (int x0) (int y0)) (Agent (fresh ?env1)) ?env2 = Some (Inr env')"
      by (auto simp: birth_def Let_def bind_run_Inr)
    from placed_keeps [OF set_obj_near_placed [OF near], of y x] c show ?thesis by simp
  qed
qed

lemma ask_and_move_keeps:
  assumes am: "ask_and_move ops x0 y0 b (env, cache) = Some (Inr (env', cache'))"
    and c: "y < length (matrix env)" "x < length (matrix env ! y)" "matrix env ! y ! x = Agent a"
    and ne: "a \<noteq> b"
  shows "matrix env' ! y ! x = Agent a"
proof -
  obtain observation where "get_observation env (Some (Coordinates (int x0) (int y0))) = Inr observation"
    by simp
  moreover obtain mv state where "get_move ops observation (entities env b) = (mv, state)"
    by (cases "get_move ops observation (entities env b)")
  moreover define env0 where "env0 = env\<lparr>entities := (entities env)(b := state),
                       calls := calls env @ [AskedMove b]\<rparr>"
  ultimately have m: "make_move ops mv b env0 = Some (Inr env')"
    using am by (auto simp: ask_and_move_def bind_run_Inr)
  show ?thesis
    by (rule make_move_keeps [OF m _ _ _ ne]) (use c in \<open>simp_all add: env0_def\<close>)
qed

lemma visit_asks:
  assumes v: "visit ops x y (env, cache) = Some (Inr (env', cache'))"
    and cell: "matrix env ! y ! x = Agent b"
    and alive: "health ops (entities env b) \<noteq> 0" and new: "b \<notin> set cache"
  shows "frame b (fresh env) [b] env env'" and "b \<in> set cache'" and "set cache \<subseteq> set cache'"
proof -
  from v cell alive new obtain env1 cache1 where
    bi: "birth ops x y b (env, cache) = Some (Inr (env1, cache1))"
    and am: "ask_and_move ops x y b (env1, cache1) = Some (Inr (env', cache'))"
    by (auto simp: visit_def bind_run_Inr)
  note be = birth_effect [OF bi] and ae = ask_and_move_effect [OF am, of "fresh env"]
  from frame_trans [OF be [THEN conjunct1] ae [THEN conjunct1]]
  show "frame b (fresh env) [b] env env'" by simp
  from be ae show "b \<in> set cache'" "set cache \<subseteq> set cache'" by auto
qed

lemma visit_keeps:
  assumes v: "visit ops u w (env, cache) = Some (Inr (env', cache'))"
    and r: "w < length (matrix env)" "u < length (matrix env ! w)"
    and a: "a \<in> set cache"
    and c: "y < length (matrix env)" "x < length (matrix env ! y)" "matrix env ! y ! x = Agent a"
    and ne: "(x, y) \<noteq> (u, w)"
  shows "matrix env' ! y ! x = Agent a"
proof (cases "matrix env ! w ! u")
  case (Agent b)
  show ?thesis
  proof (cases "health ops (entities env b) = 0")
    case True
    with v Agent erase_object_nat [OF r]
    have "env' = env\<lparr>matrix := put_cell u w Empty (matrix env)\<rparr>"
      by (simp add: visit_def)
    with r c ne show ?thesis by (auto simp: nth_put_cell)
  next
    case alive: False
    show ?thesis
    proof (cases "b \<in> set cache")
      case True
      with v Agent alive have "env' = env" by (simp add: visit_def)
      with c show ?thesis by simp
    next
      case False
      with a have ne': "a \<noteq> b" by auto
      from False v Agent alive obtain env1 cache1 where
        bi: "birth ops u w b (env, cache) = Some (Inr (env1, cache1))"
        and am: "ask_and_move ops u w b (env1, cache1) = Some (Inr (env', cache'))"
        by (auto simp: visit_def bind_run_Inr)
      note 1 = birth_keeps [OF bi c]
      from birth_effect [OF bi] have "frame b (fresh env) [] env env1" by simp
      note l = shape_lengths [OF frameD(1) [OF this]]
      show ?thesis
        by (rule ask_and_move_keeps [OF am _ _ 1 ne']) (use l c in simp_all)
    qed
  qed
next
  case Boundary
  with v c visit_other [of env w u ops cache] show ?thesis by simp
next
  case Empty
  with v c visit_other [of env w u ops cache] show ?thesis by simp
next
  case (Food k)
  with v c visit_other [of env w u ops cache] show ?thesis by simp
qed


lemma revisit_sweep:
  fixes env :: "'s environment"
  assumes so: "scan_order (matrix env) = ps @ (x, y) # qs @ (x', y') # rest"
    and v1: "visits ops ps (env, []) = Some (Inr (env1, cache1))"
    and cell: "matrix env1 ! y ! x = Agent a" and old: "a < fresh env1"
    and alive: "health ops (entities env1 a) \<noteq> 0" and new: "a \<notin> set cache1"
    and v: "visit ops x y (env1, cache1) = Some (Inr (env2, cache2))"
    and v2: "visits ops qs (env2, cache2) = Some (Inr (env3, cache3))"
  shows "asked (tick_events env1 env2) = [a]"
    and "a \<in> set cache3" and "entities env3 a = entities env2 a"
    and "matrix env2 ! y' ! x' = Agent a \<Longrightarrow>
         matrix env3 ! y' ! x' = Agent a \<and>
         visit ops x' y' (env3, cache3)
           = Some (Inr (if health ops (entities env2 a) = 0
                        then env3\<lparr>matrix := put_cell x' y' Empty (matrix env3)\<rparr> else env3,
                        cache3))"
    and "\<forall>(u, w) \<in> set (qs @ (x', y') # rest). matrix env2 ! w ! u \<noteq> Agent a \<Longrightarrow>
         matrix env3 ! y' ! x' \<noteq> Agent a"
proof -
  let ?m = "matrix env"
  let ?sh = "map length ?m"
  let ?later = "qs @ (x', y') # rest"
  define J where "J \<longleftrightarrow> (\<forall>(u, w) \<in> set ?later. matrix env2 ! w ! u \<noteq> Agent a)"
  have range: "w < length ?m \<and> u < length (?m ! w)" if "(u, w) \<in> set (scan_order ?m)" for u w
    using that by (simp add: set_scan_order)
  have range_sh: "snd p < length ?sh \<and> fst p < ?sh ! snd p" if "p \<in> set (scan_order ?m)" for p
    using range [of "fst p" "snd p"] that by simp
  from distinct_scan_order [of ?m] so have fresh_pos: "(x', y') \<notin> set qs"
    by auto
  have sh1: "map length (matrix env1) = ?sh"
    using visits_shape [OF v1, of ?sh] range_sh so by simp
  note l1 = shape_lengths [OF sh1]
  note asks = visit_asks [OF v cell alive new]
  note f12 = frameD [OF asks(1)]
  have sh2: "map length (matrix env2) = ?sh" using f12(1) sh1 by simp
  from f12(5) obtain evs where "calls env2 = calls env1 @ evs" "asked evs = [a]" by blast
  then show "asked (tick_events env1 env2) = [a]" by (simp add: tick_events_append)
  define I where "I = (\<lambda>t :: 's environment \<times> nat list.
     map length (matrix (fst t)) = ?sh \<and> a \<in> set (snd t) \<and> a < fresh (fst t) \<and>
     entities (fst t) a = entities env2 a \<and>
     (matrix env2 ! y' ! x' = Agent a \<longrightarrow> matrix (fst t) ! y' ! x' = Agent a) \<and>
     (J \<longrightarrow> (\<forall>(u, w) \<in> set ?later. matrix (fst t) ! w ! u \<noteq> Agent a)))"
  have init: "I (env2, cache2)"
    unfolding I_def using sh2 asks(2) f12(2) old by (auto simp: J_def)
  have step: "I t'" if p: "p \<in> set qs" and inv: "I t"
    and vp: "visit ops (fst p) (snd p) t = Some (Inr t')" for p t t'
  proof -
    obtain u w where puw: "p = (u, w)" by (cases p)
    obtain e c where t: "t = (e, c)" by (cases t)
    obtain e' c' where t': "t' = (e', c')" by (cases t')
    from inv t have she: "map length (matrix e) = ?sh" and ac: "a \<in> set c"
      and fe: "a < fresh e" and ee: "entities e a = entities env2 a"
      and k5: "matrix env2 ! y' ! x' = Agent a \<longrightarrow> matrix e ! y' ! x' = Agent a"
      and k6: "J \<longrightarrow> (\<forall>(u, w) \<in> set ?later. matrix e ! w ! u \<noteq> Agent a)"
      unfolding I_def by simp_all
    note le = shape_lengths [OF she]
    from p puw so have "(u, w) \<in> set (scan_order ?m)" by simp
    from range [OF this] le have r: "w < length (matrix e)" "u < length (matrix e ! w)"
      by simp_all
    from vp puw t t' have ve: "visit ops u w (e, c) = Some (Inr (e', c'))" by simp
    note eff = visit_effect [OF ve r]
    from so have "(x', y') \<in> set (scan_order ?m)" by simp
    from range [OF this] le have r': "y' < length (matrix e)" "x' < length (matrix e ! y')"
      by simp_all
    from p puw fresh_pos have ne: "(x', y') \<noteq> (u, w)" by auto
    have k5': "matrix env2 ! y' ! x' = Agent a \<longrightarrow> matrix e' ! y' ! x' = Agent a"
    proof
      assume "matrix env2 ! y' ! x' = Agent a"
      with k5 have "matrix e ! y' ! x' = Agent a" by simp
      from visit_keeps [OF ve r ac r' this ne] show "matrix e' ! y' ! x' = Agent a" .
    qed
    show ?thesis
    proof (cases "matrix e ! w ! u")
      case (Agent b)
      with eff obtain as where fr: "frame b (fresh e) as e e'"
        and sub: "set c \<subseteq> set c'"
        and z: "health ops (entities e b) = 0 \<longrightarrow>
                  e' = e\<lparr>matrix := put_cell u w Empty (matrix e)\<rparr>"
        by blast
      note f = frameD [OF fr]
      have she': "map length (matrix e') = ?sh" using f(1) she by simp
      have ac': "a \<in> set c'" using ac sub by auto
      have fe': "a < fresh e'" using fe f(2) by simp
      have ee': "entities e' a = entities env2 a"
      proof (cases "b = a")
        case False
        with f(3) [of a] fe ee show ?thesis by simp
      next
        case True
        show ?thesis
        proof (cases "health ops (entities e b) = 0")
          case True
          with z ee show ?thesis by simp
        next
          case False
          with ve Agent ac \<open>b = a\<close> have "e' = e" by (simp add: visit_def)
          with ee show ?thesis by simp
        qed
      qed
      have k6': "J \<longrightarrow> (\<forall>(u, w) \<in> set ?later. matrix e' ! w ! u \<noteq> Agent a)"
      proof (intro impI ballI, clarify)
        fix u' w' assume j: J and in_later: "(u', w') \<in> set ?later"
          and bad: "matrix e' ! w' ! u' = Agent a"
        from j k6 have none: "\<forall>(u, w) \<in> set ?later. matrix e ! w ! u \<noteq> Agent a" by simp
        from p puw have "(u, w) \<in> set ?later" by simp
        with none Agent have ba: "a \<noteq> b" by auto
        from in_later so have "(u', w') \<in> set (scan_order ?m)" by auto
        from range [OF this] le have "w' < length (matrix e)" "u' < length (matrix e ! w')"
          by simp_all
        from f(4) [OF ba fe this bad] have "matrix e ! w' ! u' = Agent a" .
        with none in_later show False by auto
      qed
      show ?thesis
        unfolding I_def t' fst_conv snd_conv
        by (intro conjI she' ac' fe' ee' k5' k6')
    next
      case Boundary
      with eff have "e' = e" "c' = c" by simp_all
      with inv t t' show ?thesis by simp
    next
      case Empty
      with eff have "e' = e" "c' = c" by simp_all
      with inv t t' show ?thesis by simp
    next
      case (Food k)
      with eff have "e' = e" "c' = c" by simp_all
      with inv t t' show ?thesis by simp
    qed
  qed
  have "I (env3, cache3)"
  proof (rule visits_invariant [where I = I and ps = qs and ops = ops])
    show "I t'" if "p \<in> set qs" "I t" "visit ops (fst p) (snd p) t = Some (Inr t')" for p t t'
      using that by (rule step)
    show "I (env2, cache2)" by (rule init)
    show "visits ops qs (env2, cache2) = Some (Inr (env3, cache3))" by (rule v2)
  qed
  then have sh3: "map length (matrix env3) = ?sh" and a3: "a \<in> set cache3"
    and e3: "entities env3 a = entities env2 a"
    and k5: "matrix env2 ! y' ! x' = Agent a \<longrightarrow> matrix env3 ! y' ! x' = Agent a"
    and k6: "J \<longrightarrow> (\<forall>(u, w) \<in> set ?later. matrix env3 ! w ! u \<noteq> Agent a)"
    unfolding I_def by simp_all
  from a3 show "a \<in> set cache3" .
  from e3 show "entities env3 a = entities env2 a" .
  note l3 = shape_lengths [OF sh3]
  from so have "(x', y') \<in> set (scan_order ?m)" by simp
  from range [OF this] l3 have r3: "y' < length (matrix env3)" "x' < length (matrix env3 ! y')"
    by simp_all
  {
    assume "matrix env2 ! y' ! x' = Agent a"
    with k5 have c3: "matrix env3 ! y' ! x' = Agent a" by simp
    have "visit ops x' y' (env3, cache3)
           = Some (Inr (if health ops (entities env2 a) = 0
                        then env3\<lparr>matrix := put_cell x' y' Empty (matrix env3)\<rparr> else env3,
                        cache3))"
      using c3 a3 e3 erase_object_nat [OF r3] by (simp add: visit_def)
    with c3 show "matrix env3 ! y' ! x' = Agent a \<and>
         visit ops x' y' (env3, cache3)
           = Some (Inr (if health ops (entities env2 a) = 0
                        then env3\<lparr>matrix := put_cell x' y' Empty (matrix env3)\<rparr> else env3,
                        cache3))"
      by simp
  }
  {
    assume "\<forall>(u, w) \<in> set ?later. matrix env2 ! w ! u \<noteq> Agent a"
    then have J by (simp add: J_def)
    with k6 have "\<forall>(u, w) \<in> set ?later. matrix env3 ! w ! u \<noteq> Agent a" by simp
    then show "matrix env3 ! y' ! x' \<noteq> Agent a" by simp
  }
qed


lemma visits_no_agents:
  "\<forall>p \<in> set ps. \<not> is_agent (matrix env ! snd p ! fst p) \<Longrightarrow>
   visits ops ps (env, cache) = Some (Inr (env, cache))"
  by (induction ps) (simp_all add: visit_other)

text \<open>
  Claim C2, as stated: for some configuration and policy an agent that moves to a cell
  later in scan order is moved a second time within the same tick. On the 5 by 5 grid
  with one agent at (1,1) and the policy fixed to \<open>RIGHT\<close> the agent moves to (2,1),
  which the scan reaches next; the agent is then in the cache of moved entities and is
  skipped: it ends at (2,1), not at (3,1), and its \<open>get_move\<close> has been called once.
\<close>

theorem revisit_counterexample:
  "map_option (map_sum id (\<lambda>env. (matrix env, calls env)))
     (get_next_state (fixed_policy RIGHT)
        (example_env False [wall, [Boundary, Agent 0, Empty, Empty, Boundary], vacant, vacant, wall]
           (\<lambda>_. 5) []))
   = Some (Inr ([wall, [Boundary, Empty, Agent 0, Empty, Boundary], vacant, vacant, wall],
                [AskedMove 0]))"
  by code_simp

text \<open>
  Claim C2, amended. In every configuration and for every policy, the sweep of a tick
  is the sequence of the visits of all cells, each once and rows first, and when it
  completes no agent has been asked for a movement (and so moved) more than once. Take
  an agent that exists and that the scan finds with health other than 0 and not yet in
  the cache of moved entities: that visit asks it for a movement once and puts it in
  the cache, and nothing that the scan does between that visit and a later one changes
  the agent's state. If after its move the agent is in a cell later in scan order, it
  is still there when the scan reaches that cell, and the visit there asks nothing and
  moves nothing: it changes nothing when the agent's health is not 0 and erases the
  agent from the cell when its health is 0. If after its move the agent is in no cell
  later in scan order, as when it moved to an earlier cell, no later visit finds it.
\<close>

theorem asked_once:
  "get_next_state ops env
     = bind_run (visits ops (scan_order (matrix env)) (env, [])) (\<lambda>s. Some (Inr (fst s))) \<and>
   distinct (scan_order (matrix env)) \<and>
   set (scan_order (matrix env))
     = {(x, y). y < length (matrix env) \<and> x < length (matrix env ! y)} \<and>
   (get_next_state ops env = Some (Inr env') \<longrightarrow> distinct (asked (tick_events env env'))) \<and>
   (scan_order (matrix env) = ps @ (x, y) # qs @ (x', y') # rest \<longrightarrow>
    visits ops ps (env, []) = Some (Inr (env1, cache1)) \<longrightarrow>
    matrix env1 ! y ! x = Agent a \<longrightarrow> a < fresh env1 \<longrightarrow>
    health ops (entities env1 a) \<noteq> 0 \<longrightarrow> a \<notin> set cache1 \<longrightarrow>
    visit ops x y (env1, cache1) = Some (Inr (env2, cache2)) \<longrightarrow>
    visits ops qs (env2, cache2) = Some (Inr (env3, cache3)) \<longrightarrow>
      asked (tick_events env1 env2) = [a] \<and>
      a \<in> set cache3 \<and> entities env3 a = entities env2 a \<and>
      (matrix env2 ! y' ! x' = Agent a \<longrightarrow>
         matrix env3 ! y' ! x' = Agent a \<and>
         visit ops x' y' (env3, cache3)
           = Some (Inr (if health ops (entities env2 a) = 0
                        then env3\<lparr>matrix := put_cell x' y' Empty (matrix env3)\<rparr> else env3,
                        cache3))) \<and>
      ((\<forall>(u, w) \<in> set (qs @ (x', y') # rest). matrix env2 ! w ! u \<noteq> Agent a) \<longrightarrow>
         matrix env3 ! y' ! x' \<noteq> Agent a))"
proof -
  have a: "get_next_state ops env
     = bind_run (visits ops (scan_order (matrix env)) (env, [])) (\<lambda>s. Some (Inr (fst s)))"
    by (rule get_next_state_visits)
  have b: "distinct (scan_order (matrix env))" by (rule distinct_scan_order)
  have c: "set (scan_order (matrix env))
     = {(x, y). y < length (matrix env) \<and> x < length (matrix env ! y)}"
    by (rule set_scan_order)
  have d: "get_next_state ops env = Some (Inr env') \<longrightarrow> distinct (asked (tick_events env env'))"
    using asked_once_sweep [of ops env env'] by blast
  have e: "scan_order (matrix env) = ps @ (x, y) # qs @ (x', y') # rest \<longrightarrow>
    visits ops ps (env, []) = Some (Inr (env1, cache1)) \<longrightarrow>
    matrix env1 ! y ! x = Agent a \<longrightarrow> a < fresh env1 \<longrightarrow>
    health ops (entities env1 a) \<noteq> 0 \<longrightarrow> a \<notin> set cache1 \<longrightarrow>
    visit ops x y (env1, cache1) = Some (Inr (env2, cache2)) \<longrightarrow>
    visits ops qs (env2, cache2) = Some (Inr (env3, cache3)) \<longrightarrow>
      asked (tick_events env1 env2) = [a] \<and>
      a \<in> set cache3 \<and> entities env3 a = entities env2 a \<and>
      (matrix env2 ! y' ! x' = Agent a \<longrightarrow>
         matrix env3 ! y' ! x' = Agent a \<and>
         visit ops x' y' (env3, cache3)
           = Some (Inr (if health ops (entities env2 a) = 0
                        then env3\<lparr>matrix := put_cell x' y' Empty (matrix env3)\<rparr> else env3,
                        cache3))) \<and>
      ((\<forall>(u, w) \<in> set (qs @ (x', y') # rest). matrix env2 ! w ! u \<noteq> Agent a) \<longrightarrow>
         matrix env3 ! y' ! x' \<noteq> Agent a)"
  proof (intro impI)
    assume h: "scan_order (matrix env) = ps @ (x, y) # qs @ (x', y') # rest"
      "visits ops ps (env, []) = Some (Inr (env1, cache1))"
      "matrix env1 ! y ! x = Agent a" "a < fresh env1"
      "health ops (entities env1 a) \<noteq> 0" "a \<notin> set cache1"
      "visit ops x y (env1, cache1) = Some (Inr (env2, cache2))"
      "visits ops qs (env2, cache2) = Some (Inr (env3, cache3))"
    note r = revisit_sweep [OF h]
    have 4: "matrix env2 ! y' ! x' = Agent a \<longrightarrow>
         matrix env3 ! y' ! x' = Agent a \<and>
         visit ops x' y' (env3, cache3)
           = Some (Inr (if health ops (entities env2 a) = 0
                        then env3\<lparr>matrix := put_cell x' y' Empty (matrix env3)\<rparr> else env3,
                        cache3))"
      using r(4) by blast
    have 5: "(\<forall>(u, w) \<in> set (qs @ (x', y') # rest). matrix env2 ! w ! u \<noteq> Agent a) \<longrightarrow>
         matrix env3 ! y' ! x' \<noteq> Agent a"
      using r(5) by blast
    show "asked (tick_events env1 env2) = [a] \<and>
      a \<in> set cache3 \<and> entities env3 a = entities env2 a \<and>
      (matrix env2 ! y' ! x' = Agent a \<longrightarrow>
         matrix env3 ! y' ! x' = Agent a \<and>
         visit ops x' y' (env3, cache3)
           = Some (Inr (if health ops (entities env2 a) = 0
                        then env3\<lparr>matrix := put_cell x' y' Empty (matrix env3)\<rparr> else env3,
                        cache3))) \<and>
      ((\<forall>(u, w) \<in> set (qs @ (x', y') # rest). matrix env2 ! w ! u \<noteq> Agent a) \<longrightarrow>
         matrix env3 ! y' ! x' \<noteq> Agent a)"
      by (rule conjI [OF r(1) conjI [OF r(2) conjI [OF r(3) conjI [OF 4 5]]]])
  qed
  show ?thesis by (rule conjI [OF a conjI [OF b conjI [OF c conjI [OF d e]]]])
qed


theorem asked_once_witness:
  "(\<exists>env2 cache2.
      visit (fixed_policy RIGHT) 1 1
        (example_env False [wall, [Boundary, Agent 0, Empty, Empty, Boundary], vacant, vacant, wall]
           (\<lambda>_. 5) [], []) = Some (Inr (env2, cache2)) \<and>
      matrix env2 = [wall, [Boundary, Empty, Agent 0, Empty, Boundary], vacant, vacant, wall] \<and>
      calls env2 = [AskedMove 0] \<and>
      visit (fixed_policy RIGHT) 2 1 (env2, cache2) = Some (Inr (env2, cache2))) \<and>
   (\<exists>env'. get_next_state (fixed_policy RIGHT)
       (example_env False [wall, [Boundary, Agent 0, Empty, Agent 1, Boundary], vacant, vacant, wall]
          (\<lambda>_. 5) []) = Some (Inr env') \<and>
     calls env' = [AskedMove 0, AskedMove 1] \<and> distinct (asked (calls env'))) \<and>
   (\<exists>env2 cache2.
      visit (fixed_policy LEFT) 2 1
        (example_env False [wall, [Boundary, Empty, Agent 0, Empty, Boundary], vacant, vacant, wall]
           (\<lambda>_. 5) [], []) = Some (Inr (env2, cache2)) \<and>
      matrix env2 = [wall, [Boundary, Agent 0, Empty, Empty, Boundary], vacant, vacant, wall] \<and>
      visits (fixed_policy LEFT) [(3, 1), (4, 1), (0, 2)] (env2, cache2) = Some (Inr (env2, cache2)) \<and>
      matrix env2 ! 2 ! 1 \<noteq> Agent 0)"
proof -
  let ?R = "fixed_policy RIGHT"
  let ?L = "fixed_policy LEFT"
  let ?e1 = "example_env False
       [wall, [Boundary, Agent 0, Empty, Empty, Boundary], vacant, vacant, wall] (\<lambda>_. 5) []"
  let ?e2 = "example_env False
       [wall, [Boundary, Agent 0, Empty, Agent 1, Boundary], vacant, vacant, wall] (\<lambda>_. 5) []"
  let ?e3 = "example_env False
       [wall, [Boundary, Empty, Agent 0, Empty, Boundary], vacant, vacant, wall] (\<lambda>_. 5) []"
  let ?row0 = "[(0, 0), (1, 0), (2, 0), (3, 0), (4, 0)] :: (nat \<times> nat) list"
  let ?rows = "[(0, 2), (1, 2), (2, 2), (3, 2), (4, 2), (0, 3), (1, 3), (2, 3), (3, 3), (4, 3),
                (0, 4), (1, 4), (2, 4), (3, 4), (4, 4)] :: (nat \<times> nat) list"
  have so1: "scan_order (matrix ?e1)
             = (?row0 @ [(0, 1)]) @ (1, 1) # [] @ (2, 1) # ([(3, 1), (4, 1)] @ ?rows)"
    by code_simp
  have m1: "matrix ?e1 = [wall, [Boundary, Agent 0, Empty, Empty, Boundary], vacant, vacant, wall]"
    by (simp add: example_env_def)
  have v1: "visits ?R (?row0 @ [(0, 1)]) (?e1, []) = Some (Inr (?e1, []))"
    by (rule visits_no_agents) (simp add: example_env_def wall_def)
  have c1: "matrix ?e1 ! 1 ! 1 = Agent 0" "0 < fresh ?e1"
    "health ?R (entities ?e1 0) \<noteq> 0" "0 \<notin> set ([] :: nat list)" "calls ?e1 = []"
    by (simp_all add: example_env_def fixed_policy_def)
  have "map_option (map_sum id (\<lambda>t. (matrix (fst t), entities (fst t) 0)))
          (visit ?R 1 1 (?e1, []))
        = Some (Inr ([wall, [Boundary, Empty, Agent 0, Empty, Boundary], vacant, vacant, wall], 4))"
    by code_simp
  then obtain env2 cache2 where w1: "visit ?R 1 1 (?e1, []) = Some (Inr (env2, cache2))"
    and m2: "matrix env2 = [wall, [Boundary, Empty, Agent 0, Empty, Boundary], vacant, vacant, wall]"
    and h2: "entities env2 0 = 4"
    by (cases "visit ?R 1 1 (?e1, [])") (auto simp: map_sum_def split: sum.splits)
  have n2: "visits ?R [] (env2, cache2) = Some (Inr (env2, cache2))" by simp
  note later = asked_once [where ops = ?R and env = ?e1 and ps = "?row0 @ [(0, 1)]"
      and x = 1 and y = 1 and qs = "[]" and x' = 2 and y' = 1
      and rest = "[(3, 1), (4, 1)] @ ?rows" and ?env1.0 = ?e1 and ?cache1.0 = "[]" and a = 0
      and ?env2.0 = env2 and ?cache2.0 = cache2 and ?env3.0 = env2 and ?cache3.0 = cache2,
      THEN conjunct2, THEN conjunct2, THEN conjunct2, THEN conjunct2,
      THEN mp, OF so1, THEN mp, OF v1, THEN mp, OF c1(1), THEN mp, OF c1(2), THEN mp, OF c1(3),
      THEN mp, OF c1(4), THEN mp, OF w1, THEN mp, OF n2]
  have cell2: "matrix env2 ! 1 ! 2 = Agent 0" by (simp add: m2)
  from later [THEN conjunct1] c1(5) have "asked (calls env2) = [0]"
    by (simp add: tick_events_def)
  have "map_option (map_sum id (\<lambda>t. calls (fst t))) (visit ?R 1 1 (?e1, []))
        = Some (Inr [AskedMove 0])"
    by code_simp
  with w1 have k2: "calls env2 = [AskedMove 0]" by simp
  from later [THEN conjunct2, THEN conjunct2, THEN conjunct2, THEN conjunct1, THEN mp, OF cell2] h2
  have skip: "visit ?R 2 1 (env2, cache2) = Some (Inr (env2, cache2))"
    by (simp add: fixed_policy_def)
  from w1 m2 k2 skip have first: "\<exists>env2 cache2.
      visit ?R 1 1 (?e1, []) = Some (Inr (env2, cache2)) \<and>
      matrix env2 = [wall, [Boundary, Empty, Agent 0, Empty, Boundary], vacant, vacant, wall] \<and>
      calls env2 = [AskedMove 0] \<and>
      visit ?R 2 1 (env2, cache2) = Some (Inr (env2, cache2))"
    by blast
  have "map_option (map_sum id calls) (get_next_state ?R ?e2)
        = Some (Inr [AskedMove 0, AskedMove 1])"
    by code_simp
  then obtain env' where r: "get_next_state ?R ?e2 = Some (Inr env')"
    and c': "calls env' = [AskedMove 0, AskedMove 1]"
    by (cases "get_next_state ?R ?e2") (auto simp: map_sum_def split: sum.splits)
  have c: "calls ?e2 = []" by (simp add: example_env_def)
  from asked_once [where ops = ?R and env = ?e2 and env' = env',
      THEN conjunct2, THEN conjunct2, THEN conjunct2, THEN conjunct1, THEN mp, OF r] c c'
  have "distinct (asked (calls env'))" by (simp add: tick_events_def)
  with r c' have second: "\<exists>env'. get_next_state ?R ?e2 = Some (Inr env') \<and>
     calls env' = [AskedMove 0, AskedMove 1] \<and> distinct (asked (calls env'))"
    by blast
  have so3: "scan_order (matrix ?e3)
             = (?row0 @ [(0, 1), (1, 1)]) @ (2, 1) # [(3, 1), (4, 1), (0, 2)] @ (1, 2)
                 # [(2, 2), (3, 2), (4, 2), (0, 3), (1, 3), (2, 3), (3, 3), (4, 3),
                    (0, 4), (1, 4), (2, 4), (3, 4), (4, 4)]"
    by code_simp
  have m3: "matrix ?e3 = [wall, [Boundary, Empty, Agent 0, Empty, Boundary], vacant, vacant, wall]"
    by (simp add: example_env_def)
  have v3: "visits ?L (?row0 @ [(0, 1), (1, 1)]) (?e3, []) = Some (Inr (?e3, []))"
    by (rule visits_no_agents) (simp add: example_env_def wall_def)
  have c3: "matrix ?e3 ! 1 ! 2 = Agent 0" "0 < fresh ?e3"
    "health ?L (entities ?e3 0) \<noteq> 0" "0 \<notin> set ([] :: nat list)"
    by (simp_all add: example_env_def fixed_policy_def)
  have "map_option (map_sum id (\<lambda>t. matrix (fst t))) (visit ?L 2 1 (?e3, []))
        = Some (Inr [wall, [Boundary, Agent 0, Empty, Empty, Boundary], vacant, vacant, wall])"
    by code_simp
  then obtain env4 cache4 where w3: "visit ?L 2 1 (?e3, []) = Some (Inr (env4, cache4))"
    and m4: "matrix env4 = [wall, [Boundary, Agent 0, Empty, Empty, Boundary], vacant, vacant, wall]"
    by (cases "visit ?L 2 1 (?e3, [])") (auto simp: map_sum_def split: sum.splits)
  have n4: "visits ?L [(3, 1), (4, 1), (0, 2)] (env4, cache4) = Some (Inr (env4, cache4))"
    by (rule visits_no_agents) (simp add: m4 wall_def vacant_def)
  have none: "\<forall>(u, w) \<in> set ([(3, 1), (4, 1), (0, 2)] @ (1, 2)
                 # [(2, 2), (3, 2), (4, 2), (0, 3), (1, 3), (2, 3), (3, 3), (4, 3),
                    (0, 4), (1, 4), (2, 4), (3, 4), (4, 4)]). matrix env4 ! w ! u \<noteq> Agent 0"
    by (simp add: m4 wall_def vacant_def)
  from asked_once [where ops = ?L and env = ?e3 and ps = "?row0 @ [(0, 1), (1, 1)]"
      and x = 2 and y = 1 and qs = "[(3, 1), (4, 1), (0, 2)]" and x' = 1 and y' = 2
      and ?env1.0 = ?e3 and ?cache1.0 = "[]" and a = 0
      and ?env2.0 = env4 and ?cache2.0 = cache4 and ?env3.0 = env4 and ?cache3.0 = cache4,
      THEN conjunct2, THEN conjunct2, THEN conjunct2, THEN conjunct2,
      THEN mp, OF so3, THEN mp, OF v3, THEN mp, OF c3(1), THEN mp, OF c3(2), THEN mp, OF c3(3),
      THEN mp, OF c3(4), THEN mp, OF w3, THEN mp, OF n4,
      THEN conjunct2, THEN conjunct2, THEN conjunct2, THEN conjunct2, THEN mp, OF none]
  have "matrix env4 ! 2 ! 1 \<noteq> Agent 0" .
  with w3 m4 n4 have third: "\<exists>env2 cache2.
      visit ?L 2 1 (?e3, []) = Some (Inr (env2, cache2)) \<and>
      matrix env2 = [wall, [Boundary, Agent 0, Empty, Empty, Boundary], vacant, vacant, wall] \<and>
      visits ?L [(3, 1), (4, 1), (0, 2)] (env2, cache2) = Some (Inr (env2, cache2)) \<and>
      matrix env2 ! 2 ! 1 \<noteq> Agent 0"
    by blast
  from first second third show ?thesis by (rule conjI [OF _ conjI])
qed

section \<open>The observation window\<close>

lemma py_slice_nat:
  "0 < x \<Longrightarrow> py_slice xs (int x - 1) (int x + 2) = take 3 (drop (x - 1) xs)"
  by (auto simp: py_slice_def py_clamp_def Let_def min_def nat_diff_distrib nat_add_distrib)

lemma py_slice_edge:
  "3 \<le> length xs \<Longrightarrow> py_slice xs (-1) 2 = []"
  by (simp add: py_slice_def py_clamp_def Let_def)

lemma py_slice_map: "py_slice (map f xs) a b = map f (py_slice xs a b)"
  by (simp add: py_slice_def Let_def take_map drop_map)

lemma py_slice_subset: "set (py_slice xs a b) \<subseteq> set xs"
  unfolding py_slice_def Let_def by (meson set_drop_subset set_take_subset subset_trans)

lemma copy_rows_spec:
  "copy_rows x rows h = (h', as) \<Longrightarrow>
     next_ref h \<le> next_ref h' \<and> outer h' = outer h \<and>
     (\<forall>r. r < next_ref h \<longrightarrow> inner h' r = inner h r) \<and>
     (\<forall>a \<in> set as. next_ref h \<le> a \<and> a < next_ref h') \<and>
     ((\<forall>r \<in> set rows. r < next_ref h) \<longrightarrow>
        map (inner h') as = map (\<lambda>r. py_slice (inner h r) (x - 1) (x + 2)) rows)"
proof (induction rows arbitrary: h h' as)
  case Nil
  then show ?case by auto
next
  case (Cons row rows)
  let ?h1 = "h\<lparr>inner := (inner h)(next_ref h := py_slice (inner h row) (x - 1) (x + 2)),
               next_ref := Suc (next_ref h)\<rparr>"
  from Cons.prems obtain as' where r: "copy_rows x rows ?h1 = (h', as')"
    and as: "as = next_ref h # as'"
    by (auto simp: Let_def split: prod.splits)
  from Cons.IH [OF r] have ih1: "Suc (next_ref h) \<le> next_ref h'"
    and ih2: "outer h' = outer h"
    and ih3: "\<forall>r. r < Suc (next_ref h) \<longrightarrow> inner h' r = inner ?h1 r"
    and ih4: "\<forall>a \<in> set as'. Suc (next_ref h) \<le> a \<and> a < next_ref h'"
    and ih5: "(\<forall>r \<in> set rows. r < Suc (next_ref h)) \<longrightarrow>
        map (inner h') as' = map (\<lambda>r. py_slice (inner ?h1 r) (x - 1) (x + 2)) rows"
    by simp_all
  have 3: "\<forall>r. r < next_ref h \<longrightarrow> inner h' r = inner h r"
    using ih3 by auto
  have 4: "\<forall>a \<in> set as. next_ref h \<le> a \<and> a < next_ref h'"
    using ih1 ih4 as by auto
  have 5: "map (inner h') as = map (\<lambda>r. py_slice (inner h r) (x - 1) (x + 2)) (row # rows)"
    if lt: "\<forall>r \<in> set (row # rows). r < next_ref h"
  proof -
    from lt have "\<forall>r \<in> set rows. r < Suc (next_ref h)" by auto
    with ih5 have "map (inner h') as'
        = map (\<lambda>r. py_slice (inner ?h1 r) (x - 1) (x + 2)) rows"
      by blast
    also have "\<dots> = map (\<lambda>r. py_slice (inner h r) (x - 1) (x + 2)) rows"
      using lt by auto
    finally have tl: "map (inner h') as' = map (\<lambda>r. py_slice (inner h r) (x - 1) (x + 2)) rows" .
    have "inner h' (next_ref h) = py_slice (inner h row) (x - 1) (x + 2)"
      using ih3 by simp
    with tl as show ?thesis by simp
  qed
  from ih1 ih2 3 4 5 show ?case by (intro conjI impI) simp_all
qed

lemma get_observation_heap_spec:
  assumes g: "get_observation_heap h matrix_ref p = (h', w)"
    and wf: "matrix_ref < next_ref h" "\<forall>r \<in> set (outer h matrix_ref). r < next_ref h"
  shows "Inr (read_matrix h' w)
         = get_observation (env\<lparr>matrix := read_matrix h matrix_ref\<rparr>) (Some p)"
    and "next_ref h \<le> w" and "\<forall>a \<in> set (outer h' w). next_ref h \<le> a"
    and "outer h' matrix_ref = outer h matrix_ref"
    and "\<forall>r. r < next_ref h \<longrightarrow> inner h' r = inner h r"
proof -
  let ?rows = "py_slice (outer h matrix_ref) (y_of p - 1) (y_of p + 2)"
  obtain h1 as where c: "copy_rows (x_of p) ?rows h = (h1, as)"
    by (cases "copy_rows (x_of p) ?rows h")
  with g have h': "h' = h1\<lparr>outer := (outer h1)(next_ref h1 := as), next_ref := Suc (next_ref h1)\<rparr>"
    and w: "w = next_ref h1"
    by (auto simp: get_observation_heap_def)
  note all = copy_rows_spec [OF c]
  from all have s1: "next_ref h \<le> next_ref h1" by (rule conjunct1)
  from all have s2: "outer h1 = outer h" by (elim conjE)
  from all have s3: "\<forall>r. r < next_ref h \<longrightarrow> inner h1 r = inner h r" by (elim conjE)
  from all have s4: "\<forall>a \<in> set as. next_ref h \<le> a \<and> a < next_ref h1" by (elim conjE)
  from all have s5: "(\<forall>r \<in> set ?rows. r < next_ref h) \<longrightarrow>
        map (inner h1) as = map (\<lambda>r. py_slice (inner h r) (x_of p - 1) (x_of p + 2)) ?rows"
    by (elim conjE)
  have rows: "\<forall>r \<in> set ?rows. r < next_ref h"
    using wf(2) py_slice_subset [of "outer h matrix_ref"] by blast
  from s5 rows have "map (inner h1) as
      = map (\<lambda>r. py_slice (inner h r) (x_of p - 1) (x_of p + 2)) ?rows"
    by (rule mp)
  also have "\<dots> = map ((\<lambda>row. py_slice row (x_of p - 1) (x_of p + 2)) \<circ> inner h) ?rows"
    by (simp only: o_def)
  also have "\<dots> = map (\<lambda>row. py_slice row (x_of p - 1) (x_of p + 2))
          (py_slice (map (inner h) (outer h matrix_ref)) (y_of p - 1) (y_of p + 2))"
    by (simp only: py_slice_map map_map)
  finally have m: "map (inner h1) as = map (\<lambda>row. py_slice row (x_of p - 1) (x_of p + 2))
          (py_slice (map (inner h) (outer h matrix_ref)) (y_of p - 1) (y_of p + 2))" .
  have "read_matrix h' w = map (inner h1) as"
    by (simp add: read_matrix_def h' w)
  with m show "Inr (read_matrix h' w)
         = get_observation (env\<lparr>matrix := read_matrix h matrix_ref\<rparr>) (Some p)"
    by (simp add: read_matrix_def)
  show "next_ref h \<le> w" using s1 w by simp
  show "\<forall>a \<in> set (outer h' w). next_ref h \<le> a" using s4 by (simp add: h' w)
  show "outer h' matrix_ref = outer h matrix_ref"
    using s1 s2 wf(1) by (simp add: h')
  show "\<forall>r. r < next_ref h \<longrightarrow> inner h' r = inner h r"
    using s3 by (simp add: h')
qed

lemma read_matrix_frame:
  assumes "outer h' matrix_ref = outer h matrix_ref"
    and "\<forall>r. r < n \<longrightarrow> inner h' r = inner h r"
    and "matrix_ref < n" and "\<forall>r \<in> set (outer h matrix_ref). r < n"
  shows "read_matrix h' matrix_ref = read_matrix h matrix_ref"
  using assms by (simp add: read_matrix_def)

text \<open>
  Claim C9, as stated: for every in-bounds origin the extractor returns the cells within
  one row and one column of the origin, clipped at the bounds. For the in-bounds origin
  (0,1) of the 5 by 5 grid the column slice starts at \<open>-1\<close>, which Python counts from
  the end, and every row of the window is empty, where the clipped window has the two
  columns 0 and 1.
\<close>

theorem observation_edge_counterexample:
  "get_observation (example_env False [wall, vacant, vacant, vacant, wall] (\<lambda>_. 5) [])
     (Some (Coordinates 0 1)) = Inr [[], [], []]"
  by code_simp

text \<open>
  Claim C9, amended. For every origin with \<open>x \<ge> 1\<close> and \<open>y \<ge> 1\<close> the extractor returns,
  in order, the rows \<open>y - 1\<close> to \<open>y + 1\<close> that exist and of each of them the cells
  \<open>x - 1\<close> to \<open>x + 1\<close> that exist (3 by 3 cells away from the far edges, fewer at them,
  none from the opposite side). For an origin in row 0 of a grid of at least 3 rows the
  window has no row, and for an origin in column 0 of a grid whose rows have at least 3
  cells every row of the window is empty. The window is made of newly created lists:
  the grid read after the extraction is the grid read before it, and writing any list
  of the window leaves the grid as it was.
\<close>

theorem observation_window:
  "(0 < x \<longrightarrow> 0 < y \<longrightarrow>
      get_observation env (Some (Coordinates (int x) (int y)))
        = Inr (map (\<lambda>row. take 3 (drop (x - 1) row)) (take 3 (drop (y - 1) (matrix env))))) \<and>
   (3 \<le> length (matrix env) \<longrightarrow>
      get_observation env (Some (Coordinates (int x) 0)) = Inr []) \<and>
   ((\<forall>row \<in> set (matrix env). 3 \<le> length row) \<longrightarrow>
      (\<forall>row \<in> set (projr (get_observation env (Some (Coordinates 0 (int y))))). row = [])) \<and>
   (get_observation_heap h matrix_ref p = (h', w) \<longrightarrow> matrix_ref < next_ref h \<longrightarrow>
    (\<forall>r \<in> set (outer h matrix_ref). r < next_ref h) \<longrightarrow>
      Inr (read_matrix h' w)
        = get_observation (env\<lparr>matrix := read_matrix h matrix_ref\<rparr>) (Some p) \<and>
      read_matrix h' matrix_ref = read_matrix h matrix_ref \<and>
      (\<forall>a. a = w \<or> a \<in> set (outer h' w) \<longrightarrow>
         (\<forall>cs rs. read_matrix (h'\<lparr>inner := (inner h')(a := cs)\<rparr>) matrix_ref
                    = read_matrix h matrix_ref \<and>
                  read_matrix (h'\<lparr>outer := (outer h')(a := rs)\<rparr>) matrix_ref
                    = read_matrix h matrix_ref)))"
proof (intro conjI impI)
  assume "0 < x" "0 < y"
  then show "get_observation env (Some (Coordinates (int x) (int y)))
        = Inr (map (\<lambda>row. take 3 (drop (x - 1) row)) (take 3 (drop (y - 1) (matrix env))))"
    by (simp add: py_slice_nat)
next
  assume "3 \<le> length (matrix env)"
  then show "get_observation env (Some (Coordinates (int x) 0)) = Inr []"
    by (simp add: py_slice_edge)
next
  assume rows: "\<forall>row \<in> set (matrix env). 3 \<le> length row"
  show "\<forall>row \<in> set (projr (get_observation env (Some (Coordinates 0 (int y))))). row = []"
  proof
    fix row
    assume "row \<in> set (projr (get_observation env (Some (Coordinates 0 (int y)))))"
    then obtain r where "r \<in> set (py_slice (matrix env) (int y - 1) (int y + 2))"
      and row: "row = py_slice r (-1) 2"
      by auto
    with py_slice_subset [of "matrix env"] rows have "3 \<le> length r" by blast
    with row show "row = []" by (simp add: py_slice_edge)
  qed
next
  assume g: "get_observation_heap h matrix_ref p = (h', w)"
    and wf: "matrix_ref < next_ref h" "\<forall>r \<in> set (outer h matrix_ref). r < next_ref h"
  note spec = get_observation_heap_spec [OF g wf]
  show "Inr (read_matrix h' w)
        = get_observation (env\<lparr>matrix := read_matrix h matrix_ref\<rparr>) (Some p)"
    by (rule spec(1))
  show "read_matrix h' matrix_ref = read_matrix h matrix_ref"
    by (rule read_matrix_frame [OF spec(4,5) wf])
  show "\<forall>a. a = w \<or> a \<in> set (outer h' w) \<longrightarrow>
         (\<forall>cs rs. read_matrix (h'\<lparr>inner := (inner h')(a := cs)\<rparr>) matrix_ref
                    = read_matrix h matrix_ref \<and>
                  read_matrix (h'\<lparr>outer := (outer h')(a := rs)\<rparr>) matrix_ref
                    = read_matrix h matrix_ref)"
  proof (intro allI impI conjI)
    fix a cs rs
    assume "a = w \<or> a \<in> set (outer h' w)"
    with spec(2,3) have new: "next_ref h \<le> a" by auto
    show "read_matrix (h'\<lparr>inner := (inner h')(a := cs)\<rparr>) matrix_ref = read_matrix h matrix_ref"
      by (rule read_matrix_frame [OF _ _ wf]) (use spec(4,5) new in auto)
    show "read_matrix (h'\<lparr>outer := (outer h')(a := rs)\<rparr>) matrix_ref = read_matrix h matrix_ref"
      by (rule read_matrix_frame [OF _ _ wf]) (use spec(4,5) new wf(1) in auto)
  qed
qed

theorem observation_window_witness:
  "get_observation (example_env False [wall, vacant, vacant, vacant, wall] (\<lambda>_. 5) [])
     (Some (Coordinates 4 4)) = Inr [[Empty, Boundary], [Boundary, Boundary]] \<and>
   get_observation (example_env False [wall, vacant, vacant, vacant, wall] (\<lambda>_. 5) [])
     (Some (Coordinates 1 0)) = Inr [] \<and>
   get_observation (example_env False [wall, vacant, vacant, vacant, wall] (\<lambda>_. 5) [])
     (Some (Coordinates 0 1)) = Inr [[], [], []] \<and>
   read_matrix (fst (get_observation_heap example_heap 0 (Coordinates 4 4)))
     (snd (get_observation_heap example_heap 0 (Coordinates 4 4)))
     = [[Empty, Boundary], [Boundary, Boundary]] \<and>
   read_matrix
     ((fst (get_observation_heap example_heap 0 (Coordinates 4 4)))
        \<lparr>inner := (inner (fst (get_observation_heap example_heap 0 (Coordinates 4 4))))
           (snd (get_observation_heap example_heap 0 (Coordinates 4 4)) := [Agent 9])\<rparr>) 0
     = [wall, vacant, vacant, vacant, wall]"
proof -
  let ?env = "example_env False [wall, vacant, vacant, vacant, wall] (\<lambda>_. 5) []"
  let ?g = "get_observation_heap example_heap 0 (Coordinates 4 4)"
  have m: "matrix ?env = [wall, vacant, vacant, vacant, wall]"
    by (simp add: example_env_def)
  have big: "3 \<le> length (matrix ?env)" "\<forall>row \<in> set (matrix ?env). 3 \<le> length row"
    by (simp_all add: example_env_def wall_def vacant_def)
  have g: "get_observation_heap example_heap 0 (Coordinates 4 4) = (fst ?g, snd ?g)"
    by simp
  have wf: "0 < next_ref example_heap" "\<forall>r \<in> set (outer example_heap 0). r < next_ref example_heap"
    by (simp_all add: example_heap_def)
  have r: "read_matrix example_heap 0 = [wall, vacant, vacant, vacant, wall]"
    by (simp add: read_matrix_def example_heap_def)
  have e: "?env\<lparr>matrix := read_matrix example_heap 0\<rparr> = ?env"
    by (simp add: r example_env_def)
  have 1: "get_observation ?env (Some (Coordinates 4 4))
           = Inr (map (\<lambda>row. take 3 (drop (4 - 1) row)) (take 3 (drop (4 - 1) (matrix ?env))))"
    using observation_window [of 4 4 ?env, THEN conjunct1] by simp
  have 2: "get_observation ?env (Some (Coordinates 1 0)) = Inr []"
    using observation_window [of 1 _ ?env, THEN conjunct2, THEN conjunct1] big(1) by simp
  have 3: "\<forall>row \<in> set (projr (get_observation ?env (Some (Coordinates 0 1)))). row = []"
    using observation_window [of _ 1 ?env, THEN conjunct2, THEN conjunct2, THEN conjunct1] big(2)
    by simp
  note 4 = observation_window [of _ _ ?env example_heap 0 "Coordinates 4 4" "fst ?g" "snd ?g",
      THEN conjunct2, THEN conjunct2, THEN conjunct2, THEN mp, OF g, THEN mp, OF wf(1),
      THEN mp, OF wf(2)]
  from 4 have a: "Inr (read_matrix (fst ?g) (snd ?g)) = get_observation ?env (Some (Coordinates 4 4))"
    unfolding e by (rule conjunct1)
  from 4 have rm: "read_matrix ((fst ?g)\<lparr>inner := (inner (fst ?g))(snd ?g := [Agent 9])\<rparr>) 0
      = read_matrix example_heap 0"
    by blast
  have i: "get_observation ?env (Some (Coordinates 0 1))
           = Inr (projr (get_observation ?env (Some (Coordinates 0 1))))"
    by simp
  have "length (projr (get_observation ?env (Some (Coordinates 0 1)))) = 3"
    by (simp add: example_env_def py_slice_def py_clamp_def)
  then obtain r1 r2 r3 where w: "projr (get_observation ?env (Some (Coordinates 0 1))) = [r1, r2, r3]"
    by (auto simp only: length_Suc_conv numeral_3_eq_3 length_0_conv)
  from 3 [unfolded w] have "r1 = [] \<and> r2 = [] \<and> r3 = []" by simp
  with i w have 5: "get_observation ?env (Some (Coordinates 0 1)) = Inr [[], [], []]"
    by (simp only:)
  from a 1 2 r have "get_observation ?env (Some (Coordinates 4 4))
      = Inr [[Empty, Boundary], [Boundary, Boundary]]"
    "read_matrix (fst ?g) (snd ?g) = [[Empty, Boundary], [Boundary, Boundary]]"
    by (simp_all add: example_env_def wall_def vacant_def)
  with 2 5 r rm show ?thesis
    by (simp only:)
qed

end
